theory Spec2Isabelle
  imports Main "HOL-Library.Word" "HOL-Library.Char_ord" "HOL-Library.List_Lexorder"
begin

unbundle bit_operations_syntax

chapter \<open>librats: network utilities, the command-line client, and the wire-level core\<close>

section \<open>network\_utils.cpp: the operating system as an environment\<close>

text \<open>
  The functions of \<^verbatim>\<open>network_utils.cpp\<close> call into the C library
  (\<^verbatim>\<open>inet_pton\<close>, \<^verbatim>\<open>inet_ntop\<close>, \<^verbatim>\<open>getaddrinfo\<close>,
  \<^verbatim>\<open>getifaddrs\<close>). These are not code of the repository, so the model takes
  them as fields of an environment record and every theorem quantifies over the
  environment. The non-Windows branch of each \<^verbatim>\<open>#ifdef _WIN32\<close> is the one
  modelled. Log output (the \<^verbatim>\<open>LOG_NETUTILS_*\<close> macros) has no influence on any
  result and is left out.
\<close>

datatype family = AF_UNSPEC | AF_INET | AF_INET6 | AF_OTHER nat

text \<open>A socket address: its family tag and the raw address bytes
  (\<^verbatim>\<open>sin_addr\<close> or \<^verbatim>\<open>sin6_addr\<close>, network order).\<close>

record sockaddr =
  sa_family :: family
  sa_addr :: "8 word list"

record addrinfo =
  ai_family :: family
  ai_addr :: sockaddr

text \<open>The outcome of \<^verbatim>\<open>getaddrinfo\<close>: a non-zero status, or status 0 with a
  non-empty linked list (its head and the \<^verbatim>\<open>ai_next\<close> chain).\<close>

datatype gai_result = Gai_error int | Gai_ok addrinfo "addrinfo list"

record ifaddrs =
  ifa_name :: string
  ifa_addr :: "sockaddr option"

record netenv =
  inet_pton :: "family \<Rightarrow> string \<Rightarrow> int"
  inet_ntop :: "family \<Rightarrow> 8 word list \<Rightarrow> string"
  getaddrinfo :: "string \<Rightarrow> family \<Rightarrow> gai_result"
  getifaddrs :: "ifaddrs list option"

text \<open>\<^verbatim>\<open>std::string::c_str()\<close> handed to a C function: the C function sees the
  bytes up to the first NUL.\<close>

definition c_str :: "string \<Rightarrow> string" where
  "c_str s = takeWhile (\<lambda>c. c \<noteq> CHR 0x00) s"

definition is_valid_ipv4 :: "netenv \<Rightarrow> string \<Rightarrow> bool" where
  "is_valid_ipv4 env ip_str = (inet_pton env AF_INET (c_str ip_str) = 1)"

definition is_valid_ipv6 :: "netenv \<Rightarrow> string \<Rightarrow> bool" where
  "is_valid_ipv6 env ip_str = (inet_pton env AF_INET6 (c_str ip_str) = 1)"

definition resolve_hostname :: "netenv \<Rightarrow> string \<Rightarrow> string" where
  "resolve_hostname env hostname =
     (if hostname = [] then []
      else if is_valid_ipv4 env hostname then hostname
      else (case getaddrinfo env (c_str hostname) AF_INET of
              Gai_error status \<Rightarrow> []
            | Gai_ok result rest \<Rightarrow> inet_ntop env AF_INET (sa_addr (ai_addr result))))"

definition resolve_hostname_v6 :: "netenv \<Rightarrow> string \<Rightarrow> string" where
  "resolve_hostname_v6 env hostname =
     (if hostname = [] then []
      else if is_valid_ipv6 env hostname then hostname
      else (case getaddrinfo env (c_str hostname) AF_INET6 of
              Gai_error status \<Rightarrow> []
            | Gai_ok result rest \<Rightarrow> inet_ntop env AF_INET6 (sa_addr (ai_addr result))))"

definition to_ip_address :: "netenv \<Rightarrow> string \<Rightarrow> string" where
  "to_ip_address env host = resolve_hostname env host"

text \<open>The \<^verbatim>\<open>for (rp = result; rp != nullptr; rp = rp->ai_next)\<close> loops: every
  entry is formatted and pushed to the back of \<^verbatim>\<open>addresses\<close>.\<close>

fun collect_addresses :: "netenv \<Rightarrow> family \<Rightarrow> addrinfo list \<Rightarrow> string list \<Rightarrow> string list" where
  "collect_addresses env fam [] addresses = addresses"
| "collect_addresses env fam (rp # rest) addresses =
     collect_addresses env fam rest (addresses @ [inet_ntop env fam (sa_addr (ai_addr rp))])"

definition resolve_all_addresses :: "netenv \<Rightarrow> string \<Rightarrow> string list" where
  "resolve_all_addresses env hostname =
     (if is_valid_ipv4 env hostname then [hostname]
      else (case getaddrinfo env (c_str hostname) AF_INET of
              Gai_error status \<Rightarrow> []
            | Gai_ok result rest \<Rightarrow> collect_addresses env AF_INET (result # rest) []))"

definition resolve_all_addresses_v6 :: "netenv \<Rightarrow> string \<Rightarrow> string list" where
  "resolve_all_addresses_v6 env hostname =
     (if is_valid_ipv6 env hostname then [hostname]
      else (case getaddrinfo env (c_str hostname) AF_INET6 of
              Gai_error status \<Rightarrow> []
            | Gai_ok result rest \<Rightarrow> collect_addresses env AF_INET6 (result # rest) []))"

text \<open>The loop of \<^verbatim>\<open>resolve_all_addresses_dual\<close>: an entry of family
  \<^verbatim>\<open>AF_INET\<close> or \<^verbatim>\<open>AF_INET6\<close> is pushed where it stands, any other
  entry is skipped.\<close>

fun collect_dual :: "netenv \<Rightarrow> addrinfo list \<Rightarrow> string list \<Rightarrow> string list" where
  "collect_dual env [] addresses = addresses"
| "collect_dual env (rp # rest) addresses =
     (if ai_family rp = AF_INET
      then collect_dual env rest (addresses @ [inet_ntop env AF_INET (sa_addr (ai_addr rp))])
      else if ai_family rp = AF_INET6
      then collect_dual env rest (addresses @ [inet_ntop env AF_INET6 (sa_addr (ai_addr rp))])
      else collect_dual env rest addresses)"

definition resolve_all_addresses_dual :: "netenv \<Rightarrow> string \<Rightarrow> string list" where
  "resolve_all_addresses_dual env hostname =
     (if is_valid_ipv4 env hostname then [hostname]
      else if is_valid_ipv6 env hostname then [hostname]
      else (case getaddrinfo env (c_str hostname) AF_UNSPEC of
              Gai_error status \<Rightarrow> []
            | Gai_ok result rest \<Rightarrow> collect_dual env (result # rest) []))"

text \<open>\<^verbatim>\<open>std::string::find(pat)\<close>: the first position where \<^verbatim>\<open>pat\<close>
  starts, \<^verbatim>\<open>npos\<close> as \<open>None\<close>.\<close>

fun starts_with :: "string \<Rightarrow> string \<Rightarrow> bool" where
  "starts_with s [] = True"
| "starts_with [] (p # ps) = False"
| "starts_with (c # cs) (p # ps) = (c = p \<and> starts_with cs ps)"

fun find_from :: "string \<Rightarrow> string \<Rightarrow> nat \<Rightarrow> nat option" where
  "find_from [] pat pos = (if pat = [] then Some pos else None)"
| "find_from (c # cs) pat pos =
     (if starts_with (c # cs) pat then Some pos else find_from cs pat (Suc pos))"

definition find_str :: "string \<Rightarrow> string \<Rightarrow> nat option" where
  "find_str s pat = find_from s pat 0"

text \<open>The characters the last loop of \<^verbatim>\<open>is_hostname\<close> refuses.\<close>

definition invalid_hostname_char :: "char \<Rightarrow> bool" where
  "invalid_hostname_char c =
     (c = CHR '' '' \<or> c = CHR ''@'' \<or> c = CHR ''#'' \<or> c = CHR ''$'' \<or> c = CHR ''%'' \<or>
      c = CHR ''^'' \<or> c = CHR ''&'' \<or> c = CHR ''*'' \<or> c = CHR ''('' \<or> c = CHR '')'' \<or>
      c = CHR ''+'' \<or> c = CHR ''='' \<or> c = CHR ''['' \<or> c = CHR '']'' \<or> c = CHR ''{'' \<or>
      c = CHR ''}'' \<or> c = CHR ''|'' \<or> c = CHR 0x5C \<or> c = CHR ''/'' \<or> c = CHR ''?'' \<or>
      c = CHR ''<'' \<or> c = CHR ''>'' \<or> c = CHR '','' \<or> c = CHR '';'' \<or> c = CHR '':'' \<or>
      c = CHR 0x22 \<or> c = CHR 0x27 \<or> c = CHR 0x60 \<or> c = CHR ''~'' \<or> c = CHR ''!'')"

definition is_hostname :: "netenv \<Rightarrow> string \<Rightarrow> bool" where
  "is_hostname env str =
     (if is_valid_ipv4 env str \<or> is_valid_ipv6 env str then False
      else if str = [] \<or> length str > 253 then False
      else if hd str = CHR ''.'' \<or> last str = CHR ''.'' then False
      else if hd str = CHR ''-'' \<or> last str = CHR ''-'' then False
      else if find_str str ''..'' \<noteq> None then False
      else if str = ''.'' then False
      else if list_ex invalid_hostname_char str then False
      else True)"

text \<open>The \<^verbatim>\<open>getifaddrs\<close> loops: entries without an address are skipped, entries
  of the wanted family are formatted.\<close>

fun collect_ifaddrs :: "netenv \<Rightarrow> family \<Rightarrow> ifaddrs list \<Rightarrow> string list \<Rightarrow> string list" where
  "collect_ifaddrs env fam [] addresses = addresses"
| "collect_ifaddrs env fam (ifa # rest) addresses =
     (case ifa_addr ifa of
        None \<Rightarrow> collect_ifaddrs env fam rest addresses
      | Some sa \<Rightarrow>
          if sa_family sa = fam
          then collect_ifaddrs env fam rest (addresses @ [inet_ntop env fam (sa_addr sa)])
          else collect_ifaddrs env fam rest addresses)"

definition get_local_interface_addresses_v4 :: "netenv \<Rightarrow> string list" where
  "get_local_interface_addresses_v4 env =
     (case getifaddrs env of
        None \<Rightarrow> []
      | Some ifaddr \<Rightarrow> collect_ifaddrs env AF_INET ifaddr [])"

definition get_local_interface_addresses_v6 :: "netenv \<Rightarrow> string list" where
  "get_local_interface_addresses_v6 env =
     (case getifaddrs env of
        None \<Rightarrow> []
      | Some ifaddr \<Rightarrow> collect_ifaddrs env AF_INET6 ifaddr [])"

definition get_local_interface_addresses :: "netenv \<Rightarrow> string list" where
  "get_local_interface_addresses env =
     get_local_interface_addresses_v4 env @ get_local_interface_addresses_v6 env"

text \<open>The membership loop of \<^verbatim>\<open>is_local_interface_address\<close>.\<close>

fun local_addr_loop :: "string list \<Rightarrow> string \<Rightarrow> bool" where
  "local_addr_loop [] ip_address = False"
| "local_addr_loop (local_addr # rest) ip_address =
     (if local_addr = ip_address then True else local_addr_loop rest ip_address)"

definition is_local_interface_address :: "netenv \<Rightarrow> string \<Rightarrow> bool" where
  "is_local_interface_address env ip_address =
     (if local_addr_loop (get_local_interface_addresses env) ip_address then True
      else if ip_address = ''127.0.0.1'' \<or> ip_address = ''::1'' \<or> ip_address = ''localhost''
      then True
      else False)"


subsection \<open>A concrete host for evaluating the model\<close>

text \<open>
  A small environment in the shape the C library gives: \<^verbatim>\<open>inet_pton\<close> for
  \<^verbatim>\<open>AF_INET\<close> is the usual dotted-quad scanner (four decimal fields of at most
  255, no leading zero), the resolver knows two names, and the host has a loopback and
  one ethernet interface. For the name \<^verbatim>\<open>example.org\<close> the resolver lists the
  IPv4 address first, as a resolver does on a host without a usable IPv6 route.
\<close>

fun sample_pton4_loop :: "string \<Rightarrow> nat \<Rightarrow> bool \<Rightarrow> nat \<Rightarrow> bool" where
  "sample_pton4_loop [] cur saw_digit octets = (4 \<le> octets)"
| "sample_pton4_loop (ch # src) cur saw_digit octets =
     (if CHR ''0'' \<le> ch \<and> ch \<le> CHR ''9'' then
        (let new = cur * 10 + (of_char ch - 48) in
         if saw_digit \<and> cur = 0 then False
         else if new > 255 then False
         else if \<not> saw_digit
         then (if Suc octets > 4 then False else sample_pton4_loop src new True (Suc octets))
         else sample_pton4_loop src new True octets)
      else if ch = CHR ''.'' \<and> saw_digit then
        (if octets = 4 then False else sample_pton4_loop src 0 False octets)
      else False)"

definition sample_inet_pton :: "family \<Rightarrow> string \<Rightarrow> int" where
  "sample_inet_pton fam src =
     (if fam = AF_INET then (if sample_pton4_loop src 0 False 0 then 1 else 0)
      else if fam = AF_INET6 then (if src = ''::1'' \<or> src = ''2001:db8::1'' then 1 else 0)
      else - 1)"

definition loopback4 :: "8 word list" where
  "loopback4 = [127, 0, 0, 1]"

definition loopback6 :: "8 word list" where
  "loopback6 = [0, 0, 0, 0, 0, 0, 0, 0, 0, 0, 0, 0, 0, 0, 0, 1]"

definition example4 :: "8 word list" where
  "example4 = [192, 0, 2, 1]"

definition example6 :: "8 word list" where
  "example6 = [0x20, 0x01, 0x0d, 0xb8, 0, 0, 0, 0, 0, 0, 0, 0, 0, 0, 0, 1]"

definition sample_inet_ntop :: "family \<Rightarrow> 8 word list \<Rightarrow> string" where
  "sample_inet_ntop fam bytes =
     (if fam = AF_INET \<and> bytes = loopback4 then ''127.0.0.1''
      else if fam = AF_INET \<and> bytes = example4 then ''192.0.2.1''
      else if fam = AF_INET6 \<and> bytes = loopback6 then ''::1''
      else if fam = AF_INET6 \<and> bytes = example6 then ''2001:db8::1''
      else [])"

definition mk_addrinfo :: "family \<Rightarrow> 8 word list \<Rightarrow> addrinfo" where
  "mk_addrinfo fam bytes =
     \<lparr>ai_family = fam, ai_addr = \<lparr>sa_family = fam, sa_addr = bytes\<rparr>\<rparr>"

definition sample_getaddrinfo :: "string \<Rightarrow> family \<Rightarrow> gai_result" where
  "sample_getaddrinfo node hint =
     (if node = ''localhost'' then
        (if hint = AF_INET then Gai_ok (mk_addrinfo AF_INET loopback4) []
         else if hint = AF_INET6 then Gai_ok (mk_addrinfo AF_INET6 loopback6) []
         else Gai_ok (mk_addrinfo AF_INET6 loopback6) [mk_addrinfo AF_INET loopback4])
      else if node = ''example.org'' then
        (if hint = AF_INET then Gai_ok (mk_addrinfo AF_INET example4) []
         else if hint = AF_INET6 then Gai_ok (mk_addrinfo AF_INET6 example6) []
         else Gai_ok (mk_addrinfo AF_INET example4) [mk_addrinfo AF_INET6 example6])
      else Gai_error (- 2))"

definition sample_ifaddrs :: "ifaddrs list" where
  "sample_ifaddrs =
     [\<lparr>ifa_name = ''lo'', ifa_addr = Some \<lparr>sa_family = AF_OTHER 17, sa_addr = []\<rparr>\<rparr>,
      \<lparr>ifa_name = ''lo'', ifa_addr = Some \<lparr>sa_family = AF_INET, sa_addr = loopback4\<rparr>\<rparr>,
      \<lparr>ifa_name = ''tun0'', ifa_addr = None\<rparr>,
      \<lparr>ifa_name = ''eth0'', ifa_addr = Some \<lparr>sa_family = AF_INET, sa_addr = example4\<rparr>\<rparr>,
      \<lparr>ifa_name = ''lo'', ifa_addr = Some \<lparr>sa_family = AF_INET6, sa_addr = loopback6\<rparr>\<rparr>]"

definition sample_env :: netenv where
  "sample_env =
     \<lparr>inet_pton = sample_inet_pton, inet_ntop = sample_inet_ntop,
      getaddrinfo = sample_getaddrinfo, getifaddrs = Some sample_ifaddrs\<rparr>"


section \<open>main.cpp: the command-line client\<close>

text \<open>
  The client object (\<^verbatim>\<open>librats::RatsClient\<close>) lives in sources that are not part
  of this development. What \<^verbatim>\<open>main\<close> asks of it is an environment: whether
  \<^verbatim>\<open>start()\<close> succeeded, what \<^verbatim>\<open>is_running()\<close> answers at the \<open>n\<close>-th
  test of the loop condition, and the content of \<^verbatim>\<open>input\<close> after the \<open>n\<close>-th
  \<^verbatim>\<open>std::getline\<close>. The body of a command handler is taken to return.
\<close>

subsection \<open>Decimal text\<close>

definition digit_char :: "nat \<Rightarrow> char" where
  "digit_char d = char_of (48 + d)"

definition is_digit :: "char \<Rightarrow> bool" where
  "is_digit c = (CHR ''0'' \<le> c \<and> c \<le> CHR ''9'')"

definition digit_val :: "char \<Rightarrow> nat" where
  "digit_val c = of_char c - 48"

text \<open>What \<^verbatim>\<open>operator<<\<close> prints for an unsigned number.\<close>

fun show_nat :: "nat \<Rightarrow> string" where
  "show_nat n = (if n < 10 then [digit_char n] else show_nat (n div 10) @ [digit_char (n mod 10)])"

declare show_nat.simps [simp del]

definition read_nat :: "string \<Rightarrow> nat" where
  "read_nat ds = foldl (\<lambda>acc c. acc * 10 + digit_val c) 0 ds"

subsection \<open>Command-line arguments\<close>

definition isspace :: "char \<Rightarrow> bool" where
  "isspace c = (c = CHR '' '' \<or> c = CHR 0x09 \<or> c = CHR 0x0A \<or> c = CHR 0x0B \<or>
                c = CHR 0x0C \<or> c = CHR 0x0D)"

text \<open>\<^verbatim>\<open>std::stoi\<close>: leading white space, an optional sign, then at least one
  digit; what follows the digits is ignored. \<open>None\<close> stands for the exception it
  throws (\<^verbatim>\<open>std::invalid_argument\<close> without a digit, \<^verbatim>\<open>std::out_of_range\<close>
  outside the range of \<^verbatim>\<open>int\<close>).\<close>

definition stoi :: "string \<Rightarrow> int option" where
  "stoi str =
     (let s = dropWhile isspace str;
          neg = (s \<noteq> [] \<and> hd s = CHR ''-'');
          body = (if s \<noteq> [] \<and> (hd s = CHR ''-'' \<or> hd s = CHR ''+'') then tl s else s);
          ds = takeWhile is_digit body;
          v = (if neg then - int (read_nat ds) else int (read_nat ds))
      in if ds = [] then None
         else if v < - (2 ^ 31) \<or> 2 ^ 31 - 1 < v then None
         else Some v)"

record cli_args =
  listen_port :: int
  peer_host :: string
  peer_port :: int

text \<open>The argument handling at the head of \<^verbatim>\<open>main\<close>; \<open>argv\<close> holds the program
  name first, \<^verbatim>\<open>argc\<close> is its length.\<close>

definition parse_args :: "string list \<Rightarrow> cli_args option" where
  "parse_args argv =
     (case (if length argv \<ge> 2 then stoi (argv ! 1) else Some 8080) of
        None \<Rightarrow> None
      | Some lp \<Rightarrow>
          if length argv \<ge> 4
          then (case stoi (argv ! 3) of
                  None \<Rightarrow> None
                | Some pp \<Rightarrow> Some \<lparr>listen_port = lp, peer_host = argv ! 2, peer_port = pp\<rparr>)
          else Some \<lparr>listen_port = lp, peer_host = [], peer_port = 0\<rparr>)"

subsection \<open>File-transfer callbacks\<close>

record FileMetadata =
  filename :: string
  file_size :: "64 word"

text \<open>Each callback is modelled by the lines it logs and the value it returns.\<close>

definition on_file_transfer_request :: "string \<Rightarrow> FileMetadata \<Rightarrow> string \<Rightarrow> string list \<times> bool" where
  "on_file_transfer_request peer_id metadata transfer_id =
     ([''=== Incoming File Transfer Request ==='',
       ''From peer: '' @ peer_id,
       ''File: '' @ filename metadata,
       ''Size: '' @ show_nat (unat (file_size metadata)) @ '' bytes'',
       ''Transfer ID: '' @ transfer_id,
       ''Auto-accepting file transfer...''], True)"

definition on_file_request :: "string \<Rightarrow> string \<Rightarrow> string \<Rightarrow> string list \<times> bool" where
  "on_file_request peer_id file_path transfer_id =
     ([''=== Incoming File Request ==='',
       ''From peer: '' @ peer_id,
       ''Requested file: '' @ file_path,
       ''Transfer ID: '' @ transfer_id,
       ''Auto-accepting file request...''], True)"

definition on_directory_request :: "string \<Rightarrow> string \<Rightarrow> bool \<Rightarrow> string \<Rightarrow> string list \<times> bool" where
  "on_directory_request peer_id directory_path recursive transfer_id =
     ([''=== Incoming Directory Request ==='',
       ''From peer: '' @ peer_id,
       ''Requested directory: '' @ directory_path,
       ''Recursive: '' @ (if recursive then ''yes'' else ''no''),
       ''Transfer ID: '' @ transfer_id,
       ''Auto-accepting directory request...''], True)"

text \<open>The acceptance callbacks the client holds after the set-up block of
  \<^verbatim>\<open>main\<close>: registered only when \<^verbatim>\<open>is_file_transfer_available()\<close>.\<close>

record callbacks =
  file_transfer_request_cb :: "(string \<Rightarrow> FileMetadata \<Rightarrow> string \<Rightarrow> string list \<times> bool) option"
  file_request_cb :: "(string \<Rightarrow> string \<Rightarrow> string \<Rightarrow> string list \<times> bool) option"
  directory_request_cb :: "(string \<Rightarrow> string \<Rightarrow> bool \<Rightarrow> string \<Rightarrow> string list \<times> bool) option"

definition register_callbacks :: "bool \<Rightarrow> callbacks" where
  "register_callbacks file_transfer_available =
     (if file_transfer_available
      then \<lparr>file_transfer_request_cb = Some on_file_transfer_request,
            file_request_cb = Some on_file_request,
            directory_request_cb = Some on_directory_request\<rparr>
      else \<lparr>file_transfer_request_cb = None, file_request_cb = None,
            directory_request_cb = None\<rparr>)"

subsection \<open>The command loop\<close>

text \<open>\<^verbatim>\<open>iss >> command\<close> on a fresh \<^verbatim>\<open>std::istringstream\<close>: leading white space
  is skipped, the word runs to the next white space; the second component is what is
  left in the stream. When the line holds white space only, the word stays empty.\<close>

definition extract_word :: "string \<Rightarrow> string \<times> string" where
  "extract_word s =
     (let t = dropWhile isspace s
      in (takeWhile (\<lambda>c. \<not> isspace c) t, dropWhile (\<lambda>c. \<not> isspace c) t))"

datatype command =
    Cmd_help | Cmd_version | Cmd_peers | Cmd_list | Cmd_broadcast | Cmd_send
  | Cmd_connect | Cmd_connect6 | Cmd_connect_dual
  | Cmd_dht_start | Cmd_dht_stop | Cmd_dht_status | Cmd_dht_find | Cmd_dht_announce
  | Cmd_dht_discovery_status | Cmd_netutils | Cmd_netutils6 | Cmd_test_ipv6 | Cmd_dht_test
  | Cmd_file_send | Cmd_dir_send | Cmd_file_request | Cmd_dir_request
  | Cmd_transfer_list | Cmd_transfer_status | Cmd_transfer_pause | Cmd_transfer_resume
  | Cmd_transfer_cancel | Cmd_transfer_stats
  | Cmd_unknown string

text \<open>The \<^verbatim>\<open>else if\<close> chain after the test for \<^verbatim>\<open>quit\<close> and
  \<^verbatim>\<open>exit\<close>, in the order of the source; the last branch prints
  \<^verbatim>\<open>Unknown command: \<close> and the word.\<close>

definition dispatch :: "string \<Rightarrow> command" where
  "dispatch command =
     (if command = ''help'' then Cmd_help
      else if command = ''version'' then Cmd_version
      else if command = ''peers'' then Cmd_peers
      else if command = ''list'' then Cmd_list
      else if command = ''broadcast'' then Cmd_broadcast
      else if command = ''send'' then Cmd_send
      else if command = ''connect'' then Cmd_connect
      else if command = ''connect6'' then Cmd_connect6
      else if command = ''connect_dual'' then Cmd_connect_dual
      else if command = ''dht_start'' then Cmd_dht_start
      else if command = ''dht_stop'' then Cmd_dht_stop
      else if command = ''dht_status'' then Cmd_dht_status
      else if command = ''dht_find'' then Cmd_dht_find
      else if command = ''dht_announce'' then Cmd_dht_announce
      else if command = ''dht_discovery_status'' then Cmd_dht_discovery_status
      else if command = ''netutils'' then Cmd_netutils
      else if command = ''netutils6'' then Cmd_netutils6
      else if command = ''test_ipv6'' then Cmd_test_ipv6
      else if command = ''dht_test'' then Cmd_dht_test
      else if command = ''file_send'' then Cmd_file_send
      else if command = ''dir_send'' then Cmd_dir_send
      else if command = ''file_request'' then Cmd_file_request
      else if command = ''dir_request'' then Cmd_dir_request
      else if command = ''transfer_list'' then Cmd_transfer_list
      else if command = ''transfer_status'' then Cmd_transfer_status
      else if command = ''transfer_pause'' then Cmd_transfer_pause
      else if command = ''transfer_resume'' then Cmd_transfer_resume
      else if command = ''transfer_cancel'' then Cmd_transfer_cancel
      else if command = ''transfer_stats'' then Cmd_transfer_stats
      else Cmd_unknown command)"

definition unknown_command_message :: "string \<Rightarrow> string list" where
  "unknown_command_message command =
     [''Unknown command: '' @ command, ''Type '' @ [CHR 0x27] @ ''help'' @ [CHR 0x27] @ '' for available commands.'']"

text \<open>One pass through the loop body for the line just read: an empty line only
  prints the prompt again (\<^verbatim>\<open>continue\<close>), \<^verbatim>\<open>quit\<close> and \<^verbatim>\<open>exit\<close>
  leave the loop (\<^verbatim>\<open>break\<close>), anything else runs the branch the chain selects,
  with the rest of the line as its argument stream.\<close>

datatype step = Reprompt | Break | Run command string

definition loop_body :: "string \<Rightarrow> step" where
  "loop_body input =
     (if input = [] then Reprompt
      else (let (command, rest) = extract_word input
            in if command = ''quit'' \<or> command = ''exit'' then Break
               else Run (dispatch command) rest))"

text \<open>The words the chain knows, \<^verbatim>\<open>quit\<close> and \<^verbatim>\<open>exit\<close> included.\<close>

definition command_words :: "string list" where
  "command_words =
     [''quit'', ''exit'', ''help'', ''version'', ''peers'', ''list'', ''broadcast'', ''send'',
      ''connect'', ''connect6'', ''connect_dual'', ''dht_start'', ''dht_stop'', ''dht_status'',
      ''dht_find'', ''dht_announce'', ''dht_discovery_status'', ''netutils'', ''netutils6'',
      ''test_ipv6'', ''dht_test'', ''file_send'', ''dir_send'', ''file_request'',
      ''dir_request'', ''transfer_list'', ''transfer_status'', ''transfer_pause'',
      ''transfer_resume'', ''transfer_cancel'', ''transfer_stats'']"

text \<open>The calls the three connect commands make once \<^verbatim>\<open>iss >> host >> port\<close>
  has filled \<open>host\<close> and \<open>port\<close>; \<open>tcp_ok\<close> says whether the probing socket was
  valid. The last argument of the socket calls is the connect timeout in milliseconds.\<close>

datatype api_call =
    Create_tcp_client string int int
  | Create_tcp_client_v6 string int int
  | Close_socket
  | Connect_to_peer string int

definition cmd_connect :: "string \<Rightarrow> int \<Rightarrow> api_call list" where
  "cmd_connect host port =
     (if host \<noteq> [] \<and> port > 0 then [Connect_to_peer host port] else [])"

definition cmd_connect6 :: "string \<Rightarrow> int \<Rightarrow> bool \<Rightarrow> api_call list" where
  "cmd_connect6 host port tcp_ok =
     (if host \<noteq> [] \<and> port > 0
      then Create_tcp_client_v6 host port 10000 #
             (if tcp_ok then [Close_socket, Connect_to_peer host port] else [])
      else [])"

definition cmd_connect_dual :: "string \<Rightarrow> int \<Rightarrow> bool \<Rightarrow> api_call list" where
  "cmd_connect_dual host port tcp_ok =
     (if host \<noteq> [] \<and> port > 0
      then Create_tcp_client host port 10000 #
             (if tcp_ok then [Close_socket, Connect_to_peer host port] else [])
      else [])"

fun connect_timeouts :: "api_call list \<Rightarrow> int list" where
  "connect_timeouts [] = []"
| "connect_timeouts (Create_tcp_client host port timeout_ms # calls) = timeout_ms # connect_timeouts calls"
| "connect_timeouts (Create_tcp_client_v6 host port timeout_ms # calls) = timeout_ms # connect_timeouts calls"
| "connect_timeouts (call # calls) = connect_timeouts calls"

subsection \<open>The whole of main\<close>

record cli_env =
  file_transfer_available :: bool
  start_ok :: bool
  dht_start_ok :: bool
  running :: "nat \<Rightarrow> bool"
  getline_input :: "nat \<Rightarrow> string"

datatype event =
    Ev_register_callbacks callbacks
  | Ev_start
  | Ev_start_dht_discovery
  | Ev_connect_to_peer string int
  | Ev_is_running
  | Ev_getline
  | Ev_run command string
  | Ev_stop_dht_discovery
  | Ev_stop

text \<open>The \<^verbatim>\<open>while (client.is_running())\<close> loop from its \<open>n\<close>-th iteration on.
  The loop has no bound of its own: the value \<open>None\<close> stands for a run that never
  leaves it.\<close>

partial_function (option) command_loop :: "cli_env \<Rightarrow> nat \<Rightarrow> event list \<Rightarrow> event list option" where
  "command_loop env n trace =
     (if \<not> running env n then Some (trace @ [Ev_is_running])
      else (case loop_body (getline_input env n) of
              Reprompt \<Rightarrow> command_loop env (Suc n) (trace @ [Ev_is_running, Ev_getline])
            | Break \<Rightarrow> Some (trace @ [Ev_is_running, Ev_getline])
            | Run c rest \<Rightarrow>
                command_loop env (Suc n) (trace @ [Ev_is_running, Ev_getline, Ev_run c rest])))"

datatype outcome = Exit_code int | Uncaught_exception

text \<open>\<^verbatim>\<open>main\<close>: the outcome of the process and the trace of what it did. An
  exception of \<^verbatim>\<open>std::stoi\<close> is caught nowhere, so the process is terminated
  without an exit code of \<^verbatim>\<open>main\<close>.\<close>

definition main :: "string list \<Rightarrow> cli_env \<Rightarrow> (outcome \<times> event list) option" where
  "main argv env =
     (case parse_args argv of
        None \<Rightarrow> Some (Uncaught_exception, [])
      | Some args \<Rightarrow>
          (let setup = [Ev_register_callbacks (register_callbacks (file_transfer_available env)),
                        Ev_start]
           in if \<not> start_ok env then Some (Exit_code 1, setup)
              else (let before_loop = setup @ [Ev_start_dht_discovery] @
                          (if peer_host args \<noteq> [] \<and> peer_port args > 0
                           then [Ev_connect_to_peer (peer_host args) (peer_port args)] else [])
                    in (case command_loop env 0 before_loop of
                          None \<Rightarrow> None
                        | Some trace \<Rightarrow>
                            Some (Exit_code 0, trace @ [Ev_stop_dht_discovery, Ev_stop])))))"

text \<open>What a clean shutdown looks like. Iteration \<open>n\<close> leaves the loop when it finds
  the client stopped or reads \<^verbatim>\<open>quit\<close> or \<^verbatim>\<open>exit\<close>. An iteration that
  does not leave the loop tests the condition, reads a line and, unless the line is
  empty, runs the branch of its first word. A run that leaves the loop in iteration
  \<open>m\<close> does the set-up, the \<open>m\<close> iterations before, the last test of the condition
  (and the last read, when the client was still running), and then stops the DHT
  discovery and the client.\<close>

definition leaves_at :: "cli_env \<Rightarrow> nat \<Rightarrow> bool" where
  "leaves_at env n = (\<not> running env n \<or> loop_body (getline_input env n) = Break)"

fun loop_trace :: "cli_env \<Rightarrow> nat \<Rightarrow> event list" where
  "loop_trace env 0 = []"
| "loop_trace env (Suc k) =
     loop_trace env k @ [Ev_is_running, Ev_getline]
       @ (case loop_body (getline_input env k) of Run c rest \<Rightarrow> [Ev_run c rest] | _ \<Rightarrow> [])"

definition before_loop :: "cli_env \<Rightarrow> cli_args \<Rightarrow> event list" where
  "before_loop env args =
     [Ev_register_callbacks (register_callbacks (file_transfer_available env)), Ev_start,
      Ev_start_dht_discovery]
     @ (if peer_host args \<noteq> [] \<and> peer_port args > 0
        then [Ev_connect_to_peer (peer_host args) (peer_port args)] else [])"

definition clean_shutdown_trace :: "cli_env \<Rightarrow> cli_args \<Rightarrow> nat \<Rightarrow> event list" where
  "clean_shutdown_trace env args m =
     before_loop env args @ loop_trace env m
     @ (if running env m then [Ev_is_running, Ev_getline] else [Ev_is_running])
     @ [Ev_stop_dht_discovery, Ev_stop]"

text \<open>Four runs of the client: one whose \<^verbatim>\<open>start()\<close> fails; one that starts,
  reads \<^verbatim>\<open>list\<close>, an empty line and then \<^verbatim>\<open>quit\<close>; one whose client
  stops by itself after the first command; and one that reads \<^verbatim>\<open>help\<close> for
  ever while the client keeps running.\<close>

definition failing_start :: cli_env where
  "failing_start =
     \<lparr>file_transfer_available = True, start_ok = False, dht_start_ok = False,
      running = (\<lambda>n. False), getline_input = (\<lambda>n. [])\<rparr>"

definition quit_after_list :: cli_env where
  "quit_after_list =
     \<lparr>file_transfer_available = True, start_ok = True, dht_start_ok = True,
      running = (\<lambda>n. True),
      getline_input = (\<lambda>n. if n = 0 then ''list'' else if n = 1 then [] else ''quit'')\<rparr>"


definition stops_after_one :: cli_env where
  "stops_after_one =
     \<lparr>file_transfer_available = True, start_ok = True, dht_start_ok = True,
      running = (\<lambda>n. n < 1), getline_input = (\<lambda>n. ''peers'')\<rparr>"

definition help_forever :: cli_env where
  "help_forever =
     \<lparr>file_transfer_available = True, start_ok = True, dht_start_ok = True,
      running = (\<lambda>n. True), getline_input = (\<lambda>n. ''help'')\<rparr>"

section \<open>The wire-level core, modelled from the specification\<close>

text \<open>
  The bencode codec (\<^verbatim>\<open>bencode.cpp\<close>) and the DHT (\<^verbatim>\<open>dht.cpp\<close>) are named
  by the build file but their sources are not part of this development. The definitions
  of this section follow the words of the specification (sections 3, 4.1 and 8).
\<close>

subsection \<open>Outbound connection establishment\<close>

text \<open>
  \<^verbatim>\<open>connect_to_peer\<close> (\<^verbatim>\<open>librats.cpp\<close>) and \<^verbatim>\<open>create_tcp_client\<close>
  (\<^verbatim>\<open>socket.cpp\<close>) are called by \<^verbatim>\<open>main.cpp\<close> but their sources are not
  part of this development. Section 4.6 of the specification says that an outbound
  connection resolves the host dual-stack, prefers IPv6 when both families are
  available, and opens TCP with a connect timeout of 10 seconds; the help text of
  \<^verbatim>\<open>main.cpp\<close> says the same of \<^verbatim>\<open>connect_dual\<close> (IPv6 first, then IPv4).
\<close>

record connect_attempt =
  attempt_family :: family
  attempt_address :: string
  attempt_port :: int
  attempt_timeout_ms :: int

text \<open>Modelled from the spec: the connect timeout of 10 s, in milliseconds.\<close>

definition connect_timeout_ms :: int where
  "connect_timeout_ms = 10 * 1000"

text \<open>Modelled from the spec: the host is resolved dual-stack and the IPv6 addresses of
  the answer come before its IPv4 addresses.\<close>

definition dual_stack_candidates :: "netenv \<Rightarrow> string \<Rightarrow> addrinfo list" where
  "dual_stack_candidates env host =
     (case getaddrinfo env (c_str host) AF_UNSPEC of
        Gai_error status \<Rightarrow> []
      | Gai_ok result rest \<Rightarrow>
          filter (\<lambda>rp. ai_family rp = AF_INET6) (result # rest)
          @ filter (\<lambda>rp. ai_family rp = AF_INET) (result # rest))"

text \<open>Modelled from the spec: the TCP connects an outbound connection tries, in order,
  each with the connect timeout.\<close>

definition connection_attempts :: "netenv \<Rightarrow> string \<Rightarrow> int \<Rightarrow> connect_attempt list" where
  "connection_attempts env host port =
     map (\<lambda>rp. \<lparr>attempt_family = ai_family rp,
                 attempt_address = inet_ntop env (ai_family rp) (sa_addr (ai_addr rp)),
                 attempt_port = port,
                 attempt_timeout_ms = connect_timeout_ms\<rparr>)
         (dual_stack_candidates env host)"

text \<open>Modelled from the spec: the connection that is established is the first attempt
  whose TCP connect succeeds (\<open>tcp_connect\<close> says which do); \<open>None\<close> when none
  does.\<close>

definition connect_to_peer :: "netenv \<Rightarrow> (connect_attempt \<Rightarrow> bool) \<Rightarrow> string \<Rightarrow> int \<Rightarrow> connect_attempt option" where
  "connect_to_peer env tcp_connect host port =
     find tcp_connect (connection_attempts env host port)"

subsection \<open>Bencode\<close>

text \<open>Modelled from the spec: the four bencode types of section 4.1 (the value type of
  the missing \<^verbatim>\<open>bencode.cpp\<close>); a dictionary is the list of its entries.\<close>

datatype bvalue =
    BString string
  | BInt int
  | BList "bvalue list"
  | BDict "(string \<times> bvalue) list"

text \<open>Modelled from the spec: the decimal text of an integer, \<^verbatim>\<open>i<decimal>e\<close>.\<close>

definition show_int :: "int \<Rightarrow> string" where
  "show_int i = (if i < 0 then CHR ''-'' # show_nat (nat (- i)) else show_nat (nat i))"

text \<open>Modelled from the spec: a byte string is written \<^verbatim>\<open><len>:<bytes>\<close>.\<close>

definition encode_string :: "string \<Rightarrow> string" where
  "encode_string s = show_nat (length s) @ '':'' @ s"

text \<open>Modelled from the spec: the encoder of the missing \<^verbatim>\<open>bencode.cpp\<close>; the
  entries of a dictionary are written with their keys sorted lexicographically as byte
  strings.\<close>

fun encode :: "bvalue \<Rightarrow> string" where
  "encode (BString s) = encode_string s"
| "encode (BInt i) = ''i'' @ show_int i @ ''e''"
| "encode (BList xs) = ''l'' @ concat (map encode xs) @ ''e''"
| "encode (BDict kvs) =
     ''d'' @ concat (map (\<lambda>(k, e). encode_string k @ e)
                        (sort_key fst (map (\<lambda>(k, v). (k, encode v)) kvs))) @ ''e''"

text \<open>Modelled from the spec: decoding a byte string; the result carries the input that
  was not consumed.\<close>

definition decode_string :: "string \<Rightarrow> (string \<times> string) option" where
  "decode_string input =
     (let ds = takeWhile is_digit input; after = dropWhile is_digit input
      in if ds = [] then None
         else (case after of
                 [] \<Rightarrow> None
               | c # body \<Rightarrow>
                   if c \<noteq> CHR '':'' then None
                   else if length body < read_nat ds then None
                   else Some (take (read_nat ds) body, drop (read_nat ds) body)))"

text \<open>Modelled from the spec: decoding the text after the \<^verbatim>\<open>i\<close> of an integer: no
  leading zeros except in \<^verbatim>\<open>i0e\<close>, a minus sign only before a non-zero number.\<close>

definition decode_int :: "string \<Rightarrow> (int \<times> string) option" where
  "decode_int input =
     (let neg = (input \<noteq> [] \<and> hd input = CHR ''-'');
          body = (if neg then tl input else input);
          ds = takeWhile is_digit body; after = dropWhile is_digit body
      in if ds = [] then None
         else if length ds > 1 \<and> hd ds = CHR ''0'' then None
         else if neg \<and> ds = ''0'' then None
         else (case after of
                 [] \<Rightarrow> None
               | c # rest \<Rightarrow>
                   if c \<noteq> CHR ''e'' then None
                   else Some (if neg then - int (read_nat ds) else int (read_nat ds), rest)))"

text \<open>Modelled from the spec: the recursive decoder of the missing
  \<^verbatim>\<open>bencode.cpp\<close>. \<open>depth\<close> is the number of containers that may still be
  opened; the keys of a dictionary must be byte strings in strictly ascending order
  (\<open>prev\<close> is the key read last). \<open>fuel\<close> bounds the recursion and is set from the
  length of the input, so it never runs out before the input does.\<close>

fun decode_value :: "nat \<Rightarrow> nat \<Rightarrow> string \<Rightarrow> (bvalue \<times> string) option"
  and decode_list :: "nat \<Rightarrow> nat \<Rightarrow> string \<Rightarrow> (bvalue list \<times> string) option"
  and decode_dict :: "nat \<Rightarrow> nat \<Rightarrow> string option \<Rightarrow> string \<Rightarrow> ((string \<times> bvalue) list \<times> string) option"
where
  "decode_value 0 depth input = None"
| "decode_value (Suc fuel) depth [] = None"
| "decode_value (Suc fuel) depth (c # cs) =
     (if c = CHR ''i'' then
        (case decode_int cs of None \<Rightarrow> None | Some (i, rest) \<Rightarrow> Some (BInt i, rest))
      else if c = CHR ''l'' then
        (if depth = 0 then None
         else (case decode_list fuel (depth - 1) cs of
                 None \<Rightarrow> None
               | Some (xs, rest) \<Rightarrow> Some (BList xs, rest)))
      else if c = CHR ''d'' then
        (if depth = 0 then None
         else (case decode_dict fuel (depth - 1) None cs of
                 None \<Rightarrow> None
               | Some (kvs, rest) \<Rightarrow> Some (BDict kvs, rest)))
      else (case decode_string (c # cs) of
              None \<Rightarrow> None
            | Some (s, rest) \<Rightarrow> Some (BString s, rest)))"
| "decode_list 0 depth input = None"
| "decode_list (Suc fuel) depth [] = None"
| "decode_list (Suc fuel) depth (c # cs) =
     (if c = CHR ''e'' then Some ([], cs)
      else (case decode_value fuel depth (c # cs) of
              None \<Rightarrow> None
            | Some (x, rest) \<Rightarrow>
                (case decode_list fuel depth rest of
                   None \<Rightarrow> None
                 | Some (xs, rest') \<Rightarrow> Some (x # xs, rest'))))"
| "decode_dict 0 depth prev input = None"
| "decode_dict (Suc fuel) depth prev [] = None"
| "decode_dict (Suc fuel) depth prev (c # cs) =
     (if c = CHR ''e'' then Some ([], cs)
      else (case decode_string (c # cs) of
              None \<Rightarrow> None
            | Some (k, rest) \<Rightarrow>
                if (case prev of None \<Rightarrow> False | Some p \<Rightarrow> \<not> p < k) then None
                else (case decode_value fuel depth rest of
                        None \<Rightarrow> None
                      | Some (v, rest') \<Rightarrow>
                          (case decode_dict fuel depth (Some k) rest' of
                             None \<Rightarrow> None
                           | Some (kvs, rest'') \<Rightarrow> Some ((k, v) # kvs, rest'')))))"

text \<open>Modelled from the spec: no recursion depth above 256.\<close>

definition max_depth :: nat where
  "max_depth = 256"

text \<open>Modelled from the spec: the streaming decoder, which returns the value and the
  remainder of the input.\<close>

definition decode_prefix :: "string \<Rightarrow> (bvalue \<times> string) option" where
  "decode_prefix input = decode_value (Suc (length input)) max_depth input"

text \<open>Modelled from the spec: the top-level decoder, which rejects trailing garbage.\<close>

definition decode :: "string \<Rightarrow> bvalue option" where
  "decode input =
     (case decode_prefix input of
        None \<Rightarrow> None
      | Some (x, rest) \<Rightarrow> if rest = [] then Some x else None)"

text \<open>Modelled from the spec: how deep the containers of a value nest.\<close>

fun nesting :: "bvalue \<Rightarrow> nat" where
  "nesting (BString s) = 0"
| "nesting (BInt i) = 0"
| "nesting (BList xs) = Suc (fold max (map nesting xs) 0)"
| "nesting (BDict kvs) = Suc (fold max (map (\<lambda>(k, v). nesting v) kvs) 0)"

text \<open>Modelled from the spec: every dictionary of the value lists its keys in strictly
  ascending order (so no key occurs twice).\<close>

fun keys_ascending :: "bvalue \<Rightarrow> bool" where
  "keys_ascending (BString s) = True"
| "keys_ascending (BInt i) = True"
| "keys_ascending (BList xs) = list_all keys_ascending xs"
| "keys_ascending (BDict kvs) =
     (sorted_wrt (<) (map fst kvs) \<and> list_all (\<lambda>(k, v). keys_ascending v) kvs)"

text \<open>Modelled from the spec: a valid bencode value is one the decoder can produce.\<close>

definition valid :: "bvalue \<Rightarrow> bool" where
  "valid x = (keys_ascending x \<and> nesting x \<le> max_depth)"


text \<open>Modelled from the spec: the canonical form of a value, with the entries of every
  dictionary in the order of their keys.\<close>

fun canonical :: "bvalue \<Rightarrow> bvalue" where
  "canonical (BString s) = BString s"
| "canonical (BInt i) = BInt i"
| "canonical (BList xs) = BList (map canonical xs)"
| "canonical (BDict kvs) = BDict (sort_key fst (map (\<lambda>(k, v). (k, canonical v)) kvs))"

text \<open>Modelled from the spec: no dictionary of the value holds a key twice.\<close>

fun distinct_keys :: "bvalue \<Rightarrow> bool" where
  "distinct_keys (BString s) = True"
| "distinct_keys (BInt i) = True"
| "distinct_keys (BList xs) = list_all distinct_keys xs"
| "distinct_keys (BDict kvs) =
     (distinct (map fst kvs) \<and> list_all (\<lambda>(k, v). distinct_keys v) kvs)"

text \<open>Two values for evaluating the codec: the same dictionary with its entries in
  key order and out of key order.\<close>

definition sample_value :: bvalue where
  "sample_value = BDict [(''a'', BList [BString ''xy'', BInt 0]), (''b'', BInt (- 42))]"

definition unsorted_value :: bvalue where
  "unsorted_value = BDict [(''b'', BInt (- 42)), (''a'', BList [BString ''xy'', BInt 0])]"

subsection \<open>Node identifiers\<close>

text \<open>Modelled from the spec: a 160-bit identifier (section 3; the missing
  \<^verbatim>\<open>dht.cpp\<close>).\<close>

type_synonym NodeId = "160 word"

text \<open>Modelled from the spec: the XOR distance between two ids is a 160-bit unsigned
  integer.\<close>

definition xor_distance :: "NodeId \<Rightarrow> NodeId \<Rightarrow> 160 word" where
  "xor_distance a b = a XOR b"

subsection \<open>The automatic discovery loop\<close>

text \<open>
  The loop itself is part of \<^verbatim>\<open>librats.cpp\<close>, which is not among the sources;
  \<^verbatim>\<open>main.cpp\<close> only reports on it. The model follows section 4.7 of the
  specification on a clock that counts the seconds since the loop was started. The
  discovery hash, the listening port, what a search returns, the peers that are live and
  the failed connection attempts are given from outside.
\<close>

type_synonym endpoint = "string \<times> nat"

text \<open>Modelled from the spec: the three things the loop does (section 4.7).\<close>

datatype discovery_action =
    Announce_peer NodeId nat
  | Get_peers NodeId
  | Enqueue_connect endpoint

record discovery_env =
  discovery_hash :: NodeId
  announce_port :: nat
  get_peers_result :: "nat \<Rightarrow> endpoint list"
  live_peers_at :: "nat \<Rightarrow> endpoint list"
  blacklist_at :: "nat \<Rightarrow> (endpoint \<times> nat) list"

record discovery_state =
  now :: nat
  next_announce :: nat
  next_search :: nat
  connect_queue :: "endpoint list"
  actions :: "(nat \<times> discovery_action) list"

text \<open>Modelled from the spec: every 10 minutes, announce on the discovery hash.\<close>

definition announce_interval :: nat where
  "announce_interval = 10 * 60"

text \<open>Modelled from the spec: every 5 minutes, search on the discovery hash.\<close>

definition search_interval :: nat where
  "search_interval = 5 * 60"

text \<open>Modelled from the spec: blacklist entries last 10 minutes after a failed attempt.\<close>

definition blacklist_duration :: nat where
  "blacklist_duration = 10 * 60"

text \<open>Modelled from the spec: an endpoint is on the connect-blacklist at time \<open>t\<close>
  when an attempt to connect to it failed less than ten minutes before \<open>t\<close>.\<close>

definition blacklisted :: "(endpoint \<times> nat) list \<Rightarrow> nat \<Rightarrow> endpoint \<Rightarrow> bool" where
  "blacklisted entries t e =
     list_ex (\<lambda>(e', failed_at). e' = e \<and> failed_at \<le> t \<and> t < failed_at + blacklist_duration)
             entries"

text \<open>Modelled from the spec: the endpoints of a search result that get an outbound
  connect: those that are neither a live peer nor on the blacklist.\<close>

definition connect_candidates :: "discovery_env \<Rightarrow> nat \<Rightarrow> endpoint list" where
  "connect_candidates env t =
     filter (\<lambda>e. e \<notin> set (live_peers_at env t) \<and> \<not> blacklisted (blacklist_at env t) t e)
            (get_peers_result env t)"

text \<open>Modelled from the spec: the state of the loop when it is started; both timers
  are due at once.\<close>

definition discovery_start :: discovery_state where
  "discovery_start =
     \<lparr>now = 0, next_announce = 0, next_search = 0, connect_queue = [], actions = []\<rparr>"

text \<open>Modelled from the spec: one second of the loop. A timer that is due fires and is
  set again one interval later; every action is recorded with the time it was taken.\<close>

definition discovery_tick :: "discovery_env \<Rightarrow> discovery_state \<Rightarrow> discovery_state" where
  "discovery_tick env s =
     (let t = now s;
          announce_due = (next_announce s \<le> t);
          search_due = (next_search s \<le> t);
          found = (if search_due then connect_candidates env t else []);
          done = (if announce_due
                  then [(t, Announce_peer (discovery_hash env) (announce_port env))] else [])
                 @ (if search_due
                    then (t, Get_peers (discovery_hash env)) # map (\<lambda>e. (t, Enqueue_connect e)) found
                    else [])
      in \<lparr>now = t + 1,
          next_announce = (if announce_due then t + announce_interval else next_announce s),
          next_search = (if search_due then t + search_interval else next_search s),
          connect_queue = connect_queue s @ found,
          actions = actions s @ done\<rparr>)"

text \<open>Modelled from the spec: the loop after it has been running for \<open>n\<close> seconds.\<close>

fun discovery_run :: "discovery_env \<Rightarrow> nat \<Rightarrow> discovery_state" where
  "discovery_run env 0 = discovery_start"
| "discovery_run env (Suc n) = discovery_tick env (discovery_run env n)"

text \<open>A mesh for evaluating the loop: every search returns three endpoints, the first is
  a live peer, and a connection attempt to the second failed 100 seconds after the
  start.\<close>

definition sample_discovery :: discovery_env where
  "sample_discovery =
     \<lparr>discovery_hash = 0x0123456789abcdef0123456789abcdef01234567,
      announce_port = 8080,
      get_peers_result = (\<lambda>t. [(''192.0.2.1'', 8080), (''192.0.2.2'', 8080), (''192.0.2.3'', 8080)]),
      live_peers_at = (\<lambda>t. [(''192.0.2.1'', 8080)]),
      blacklist_at = (\<lambda>t. if t < 100 then [] else [((''192.0.2.2'', 8080), 100)])\<rparr>"

section \<open>Properties of the network utilities\<close>

lemma starts_with_iff: "starts_with s p \<longleftrightarrow> (\<exists>ys. s = p @ ys)"
  by (induction s p rule: starts_with.induct) auto

lemma find_from_here: "find_from (pat @ ys) pat pos = Some pos"
proof (cases "pat @ ys")
  case Nil
  then show ?thesis by simp
next
  case (Cons a list)
  have "starts_with (pat @ ys) pat"
    by (simp add: starts_with_iff)
  then show ?thesis
    unfolding Cons by simp
qed

lemma find_from_app: "find_from (xs @ pat @ ys) pat pos \<noteq> None"
  by (induction xs arbitrary: pos) (auto simp: find_from_here)

lemma find_str_contains: "s = xs @ pat @ ys \<Longrightarrow> find_str s pat \<noteq> None"
  by (simp add: find_str_def find_from_app)

lemma collect_addresses_eq:
  "collect_addresses env fam rs acc = acc @ map (\<lambda>rp. inet_ntop env fam (sa_addr (ai_addr rp))) rs"
  by (induction rs arbitrary: acc) auto

lemma collect_dual_eq:
  "collect_dual env rs acc =
     acc @ map (\<lambda>rp. inet_ntop env (ai_family rp) (sa_addr (ai_addr rp)))
              (filter (\<lambda>rp. ai_family rp = AF_INET \<or> ai_family rp = AF_INET6) rs)"
  by (induction rs arbitrary: acc) auto

lemma local_addr_loop_iff: "local_addr_loop xs a \<longleftrightarrow> a \<in> set xs"
  by (induction xs) auto

lemmas sample_eval = is_valid_ipv4_def is_valid_ipv6_def
  sample_env_def sample_inet_pton_def sample_inet_ntop_def sample_getaddrinfo_def
  mk_addrinfo_def loopback4_def loopback6_def example4_def example6_def c_str_def

text \<open>
  \<^bold>\<open>C8.\<close> An IPv4 literal passes through resolution unchanged: when
  \<^verbatim>\<open>is_valid_ipv4(s)\<close> holds, \<^verbatim>\<open>resolve_hostname(s)\<close> returns \<open>s\<close> and
  \<^verbatim>\<open>resolve_all_addresses(s)\<close> returns the one-element list \<open>[s]\<close>; the empty
  string resolves to the empty string; and \<^verbatim>\<open>to_ip_address\<close> agrees with
  \<^verbatim>\<open>resolve_hostname\<close> on every input. This holds whatever the C library answers.
\<close>

theorem ipv4_literal_passthrough:
  "(is_valid_ipv4 env s \<longrightarrow> resolve_hostname env s = s \<and> resolve_all_addresses env s = [s])
   \<and> resolve_hostname env [] = []
   \<and> to_ip_address env h = resolve_hostname env h"
  by (simp add: resolve_hostname_def resolve_all_addresses_def to_ip_address_def)

theorem ipv4_literal_passthrough_witness:
  "is_valid_ipv4 sample_env ''192.0.2.1''
   \<and> resolve_hostname sample_env ''192.0.2.1'' = ''192.0.2.1''
   \<and> resolve_all_addresses sample_env ''192.0.2.1'' = [''192.0.2.1'']
   \<and> to_ip_address sample_env ''localhost'' = resolve_hostname sample_env ''localhost''"
proof -
  have v: "is_valid_ipv4 sample_env ''192.0.2.1''"
    by (simp add: sample_eval)
  from ipv4_literal_passthrough [of sample_env "''192.0.2.1''" "''localhost''"] v
  show ?thesis by simp
qed

text \<open>
  \<^bold>\<open>C9.\<close> \<^verbatim>\<open>is_hostname\<close> answers false for every string that is a valid IPv4 or
  IPv6 literal, for the empty string, for a string of more than 253 characters, for a
  string that begins or ends with a dot or a hyphen, and for a string that contains two
  dots in a row.
\<close>

theorem is_hostname_rejects:
  "(is_valid_ipv4 env s1 \<or> is_valid_ipv6 env s1 \<longrightarrow> \<not> is_hostname env s1)
   \<and> \<not> is_hostname env []
   \<and> (length s2 > 253 \<longrightarrow> \<not> is_hostname env s2)
   \<and> ((\<exists>t. s3 = CHR ''.'' # t \<or> s3 = CHR ''-'' # t \<or> s3 = t @ ''.'' \<or> s3 = t @ ''-'')
        \<longrightarrow> \<not> is_hostname env s3)
   \<and> ((\<exists>xs ys. s4 = xs @ ''..'' @ ys) \<longrightarrow> \<not> is_hostname env s4)"
proof -
  have a: "is_valid_ipv4 env s1 \<or> is_valid_ipv6 env s1 \<longrightarrow> \<not> is_hostname env s1"
    by (simp add: is_hostname_def)
  have b: "\<not> is_hostname env []"
    by (simp add: is_hostname_def)
  have c: "length s2 > 253 \<longrightarrow> \<not> is_hostname env s2"
    by (simp add: is_hostname_def)
  have d: "(\<exists>t. s3 = CHR ''.'' # t \<or> s3 = CHR ''-'' # t \<or> s3 = t @ ''.'' \<or> s3 = t @ ''-'')
        \<longrightarrow> \<not> is_hostname env s3"
    by (auto simp: is_hostname_def)
  have e: "(\<exists>xs ys. s4 = xs @ ''..'' @ ys) \<longrightarrow> \<not> is_hostname env s4"
  proof
    assume "\<exists>xs ys. s4 = xs @ ''..'' @ ys"
    then obtain xs ys where "s4 = xs @ ''..'' @ ys"
      by blast
    then have "find_str s4 ''..'' \<noteq> None"
      by (rule find_str_contains)
    then show "\<not> is_hostname env s4"
      by (simp add: is_hostname_def)
  qed
  from a b c d e show ?thesis by blast
qed

theorem is_hostname_rejects_witness:
  "is_valid_ipv4 sample_env ''127.0.0.1'' \<and> \<not> is_hostname sample_env ''127.0.0.1''
   \<and> length (replicate 254 CHR ''a'') > 253 \<and> \<not> is_hostname sample_env (replicate 254 CHR ''a'')
   \<and> \<not> is_hostname sample_env ''example.org-''
   \<and> \<not> is_hostname sample_env ''example..org''
   \<and> is_hostname sample_env ''example.org''"
proof -
  have h1: "is_valid_ipv4 sample_env ''127.0.0.1''"
    by (simp add: sample_eval)
  have h2: "length (replicate 254 CHR ''a'') > 253"
    by simp
  have h3: "\<exists>t. ''example.org-'' = CHR ''.'' # t \<or> ''example.org-'' = CHR ''-'' # t
              \<or> ''example.org-'' = t @ ''.'' \<or> ''example.org-'' = t @ ''-''"
    by (rule exI [of _ "''example.org''"]) simp
  have h4: "\<exists>xs ys. ''example..org'' = xs @ ''..'' @ ys"
    by (rule exI [of _ "''example''"], rule exI [of _ "''org''"]) simp
  have pos: "is_hostname sample_env ''example.org''"
    by (simp add: is_hostname_def sample_eval find_str_def invalid_hostname_char_def)
  from is_hostname_rejects [of sample_env "''127.0.0.1''" "replicate 254 CHR ''a''"
      "''example.org-''" "''example..org''"] h1 h2 h3 h4 pos
  show ?thesis by blast
qed

text \<open>
  \<^bold>\<open>C10.\<close> \<^verbatim>\<open>is_local_interface_address\<close> answers true for
  \<^verbatim>\<open>127.0.0.1\<close>, \<^verbatim>\<open>::1\<close> and \<^verbatim>\<open>localhost\<close> whatever the interfaces of
  the host are; the test for these three names comes after the search of the interface
  list and adds to it, so the function answers true exactly for the listed interface
  addresses and these three names.
\<close>

theorem localhost_always_local:
  "is_local_interface_address env ''127.0.0.1''
   \<and> is_local_interface_address env ''::1''
   \<and> is_local_interface_address env ''localhost''
   \<and> is_local_interface_address env a =
       (a \<in> set (get_local_interface_addresses env)
        \<or> a = ''127.0.0.1'' \<or> a = ''::1'' \<or> a = ''localhost'')"
  by (simp add: is_local_interface_address_def local_addr_loop_iff)

lemma find_prefers:
  "list_all Q xs \<Longrightarrow> \<exists>b \<in> set xs. P b \<Longrightarrow> find P (xs @ ys) = Some a \<Longrightarrow> Q a \<and> P a"
  by (induction xs) (auto split: if_splits)

lemma find_Some_holds: "find P xs = Some a \<Longrightarrow> P a \<and> a \<in> set xs"
  by (induction xs) (auto split: if_splits)

lemma attempts_timeout:
  "list_all (\<lambda>a. attempt_timeout_ms a = 10 * 1000 \<and> attempt_port a = port)
            (connection_attempts env host port)"
  by (simp add: connection_attempts_def connect_timeout_ms_def list_all_iff)

lemma attempts_shape:
  assumes "getaddrinfo env (c_str host) AF_UNSPEC = Gai_ok r rs"
  shows "\<exists>v6s v4s. connection_attempts env host port = v6s @ v4s
           \<and> list_all (\<lambda>a. attempt_family a = AF_INET6) v6s
           \<and> list_all (\<lambda>a. attempt_family a = AF_INET) v4s
           \<and> length v6s = length (filter (\<lambda>rp. ai_family rp = AF_INET6) (r # rs))
           \<and> length v4s = length (filter (\<lambda>rp. ai_family rp = AF_INET) (r # rs))"
proof -
  let ?mk = "\<lambda>rp. \<lparr>attempt_family = ai_family rp,
                 attempt_address = inet_ntop env (ai_family rp) (sa_addr (ai_addr rp)),
                 attempt_port = port,
                 attempt_timeout_ms = connect_timeout_ms\<rparr>"
  let ?v6s = "map ?mk (filter (\<lambda>rp. ai_family rp = AF_INET6) (r # rs))"
  let ?v4s = "map ?mk (filter (\<lambda>rp. ai_family rp = AF_INET) (r # rs))"
  have "connection_attempts env host port = ?v6s @ ?v4s"
    using assms by (simp add: connection_attempts_def dual_stack_candidates_def)
  moreover have "list_all (\<lambda>a. attempt_family a = AF_INET6) ?v6s"
    by (simp add: list_all_iff)
  moreover have "list_all (\<lambda>a. attempt_family a = AF_INET) ?v4s"
    by (simp add: list_all_iff)
  ultimately show ?thesis
    by (intro exI [of _ ?v6s] exI [of _ ?v4s]) simp
qed

lemma connect_prefers_ipv6:
  assumes "connect_to_peer env tcp_connect host port = Some a"
    and "\<exists>b \<in> set (connection_attempts env host port). attempt_family b = AF_INET6 \<and> tcp_connect b"
  shows "attempt_family a = AF_INET6"
proof (cases "getaddrinfo env (c_str host) AF_UNSPEC")
  case (Gai_error status)
  with assms(2) show ?thesis
    by (simp add: connection_attempts_def dual_stack_candidates_def)
next
  case (Gai_ok r rs)
  from attempts_shape [OF this, of port] obtain v6s v4s where
    sh: "connection_attempts env host port = v6s @ v4s"
      "list_all (\<lambda>a. attempt_family a = AF_INET6) v6s"
      "list_all (\<lambda>a. attempt_family a = AF_INET) v4s"
    by blast
  from assms(2) sh have "\<exists>b \<in> set v6s. tcp_connect b"
    by (auto simp: list_all_iff)
  with sh(2) assms(1) show ?thesis
    using find_prefers [of "\<lambda>a. attempt_family a = AF_INET6" v6s tcp_connect v4s a]
    by (simp add: connect_to_peer_def sh(1))
qed

lemma connect_result:
  assumes "connect_to_peer env tcp_connect host port = Some a"
  shows "tcp_connect a \<and> attempt_timeout_ms a = 10 * 1000 \<and> attempt_port a = port"
proof -
  from assms have "tcp_connect a \<and> a \<in> set (connection_attempts env host port)"
    by (simp add: connect_to_peer_def find_Some_holds)
  with attempts_timeout [of port env host] show ?thesis
    by (auto simp: list_all_iff)
qed

lemma sample_attempts:
  "connection_attempts sample_env ''example.org'' 8080 =
     [\<lparr>attempt_family = AF_INET6, attempt_address = ''2001:db8::1'', attempt_port = 8080,
       attempt_timeout_ms = 10000\<rparr>,
      \<lparr>attempt_family = AF_INET, attempt_address = ''192.0.2.1'', attempt_port = 8080,
       attempt_timeout_ms = 10000\<rparr>]"
  by (simp add: connection_attempts_def dual_stack_candidates_def connect_timeout_ms_def
      sample_env_def sample_inet_ntop_def sample_getaddrinfo_def
      mk_addrinfo_def loopback4_def loopback6_def example4_def example6_def c_str_def)

text \<open>
  \<^bold>\<open>C3 (as amended).\<close> Outbound connection establishment resolves the target host
  dual-stack and, when both an IPv6 and an IPv4 address are available, prefers the IPv6
  address: every IPv6 address of the answer is tried before every IPv4 address, and the
  connection that is made is an IPv6 one whenever some IPv6 address accepts it; the TCP
  connect uses a 10-second timeout, and so does the TCP connect of the
  \<^verbatim>\<open>connect_dual\<close> command. The dual-stack resolution function
  \<^verbatim>\<open>resolve_all_addresses_dual\<close> itself does not order by family: for a name that
  is no IP literal and that the resolver resolves, it returns the IPv4 and IPv6 entries
  of the resolver's answer, each formatted, in the resolver's order; an IP literal of
  either family is returned as it is.
\<close>

theorem dual_resolution_keeps_resolver_order:
  "(\<not> is_valid_ipv4 env h \<and> \<not> is_valid_ipv6 env h
      \<and> getaddrinfo env (c_str h) AF_UNSPEC = Gai_ok r rs \<longrightarrow>
      resolve_all_addresses_dual env h =
        map (\<lambda>rp. inet_ntop env (ai_family rp) (sa_addr (ai_addr rp)))
            (filter (\<lambda>rp. ai_family rp = AF_INET \<or> ai_family rp = AF_INET6) (r # rs)))
   \<and> (is_valid_ipv4 env lit \<or> is_valid_ipv6 env lit \<longrightarrow> resolve_all_addresses_dual env lit = [lit])
   \<and> connect_timeouts (cmd_connect_dual host port tcp_ok)
       = (if host \<noteq> [] \<and> port > 0 then [10 * 1000] else [])
   \<and> list_all (\<lambda>a. attempt_timeout_ms a = 10 * 1000 \<and> attempt_port a = port)
               (connection_attempts env h port)
   \<and> (getaddrinfo env (c_str h) AF_UNSPEC = Gai_ok r rs \<longrightarrow>
        (\<exists>v6s v4s. connection_attempts env h port = v6s @ v4s
           \<and> list_all (\<lambda>a. attempt_family a = AF_INET6) v6s
           \<and> list_all (\<lambda>a. attempt_family a = AF_INET) v4s
           \<and> length v6s = length (filter (\<lambda>rp. ai_family rp = AF_INET6) (r # rs))
           \<and> length v4s = length (filter (\<lambda>rp. ai_family rp = AF_INET) (r # rs))))
   \<and> (connect_to_peer env tcp_connect h port = Some a \<longrightarrow>
        tcp_connect a \<and> attempt_timeout_ms a = 10 * 1000 \<and> attempt_port a = port
        \<and> ((\<exists>b \<in> set (connection_attempts env h port). attempt_family b = AF_INET6 \<and> tcp_connect b)
             \<longrightarrow> attempt_family a = AF_INET6))"
proof -
  have a: "\<not> is_valid_ipv4 env h \<and> \<not> is_valid_ipv6 env h
      \<and> getaddrinfo env (c_str h) AF_UNSPEC = Gai_ok r rs \<longrightarrow>
      resolve_all_addresses_dual env h =
        map (\<lambda>rp. inet_ntop env (ai_family rp) (sa_addr (ai_addr rp)))
            (filter (\<lambda>rp. ai_family rp = AF_INET \<or> ai_family rp = AF_INET6) (r # rs))"
    by (simp add: resolve_all_addresses_dual_def collect_dual_eq)
  have b: "is_valid_ipv4 env lit \<or> is_valid_ipv6 env lit \<longrightarrow> resolve_all_addresses_dual env lit = [lit]"
    by (simp add: resolve_all_addresses_dual_def)
  have c: "connect_timeouts (cmd_connect_dual host port tcp_ok)
       = (if host \<noteq> [] \<and> port > 0 then [10 * 1000] else [])"
    by (simp add: cmd_connect_dual_def)
  have d: "list_all (\<lambda>a. attempt_timeout_ms a = 10 * 1000 \<and> attempt_port a = port)
               (connection_attempts env h port)"
    by (rule attempts_timeout)
  have e: "getaddrinfo env (c_str h) AF_UNSPEC = Gai_ok r rs \<longrightarrow>
        (\<exists>v6s v4s. connection_attempts env h port = v6s @ v4s
           \<and> list_all (\<lambda>a. attempt_family a = AF_INET6) v6s
           \<and> list_all (\<lambda>a. attempt_family a = AF_INET) v4s
           \<and> length v6s = length (filter (\<lambda>rp. ai_family rp = AF_INET6) (r # rs))
           \<and> length v4s = length (filter (\<lambda>rp. ai_family rp = AF_INET) (r # rs)))"
    using attempts_shape [of env h r rs port] by blast
  have f: "connect_to_peer env tcp_connect h port = Some a \<longrightarrow>
        tcp_connect a \<and> attempt_timeout_ms a = 10 * 1000 \<and> attempt_port a = port
        \<and> ((\<exists>b \<in> set (connection_attempts env h port). attempt_family b = AF_INET6 \<and> tcp_connect b)
             \<longrightarrow> attempt_family a = AF_INET6)"
    using connect_result [of env tcp_connect h port a]
      connect_prefers_ipv6 [of env tcp_connect h port a]
    by blast
  from a b c d e f show ?thesis by blast
qed

theorem dual_resolution_keeps_resolver_order_witness:
  "resolve_all_addresses_dual sample_env ''example.org'' = [''192.0.2.1'', ''2001:db8::1'']
   \<and> resolve_all_addresses_dual sample_env ''::1'' = [''::1'']
   \<and> connect_timeouts (cmd_connect_dual ''example.org'' 8080 True) = [10000]
   \<and> connection_attempts sample_env ''example.org'' 8080 =
       [\<lparr>attempt_family = AF_INET6, attempt_address = ''2001:db8::1'', attempt_port = 8080,
         attempt_timeout_ms = 10000\<rparr>,
        \<lparr>attempt_family = AF_INET, attempt_address = ''192.0.2.1'', attempt_port = 8080,
         attempt_timeout_ms = 10000\<rparr>]
   \<and> connect_to_peer sample_env (\<lambda>a. True) ''example.org'' 8080 =
       Some \<lparr>attempt_family = AF_INET6, attempt_address = ''2001:db8::1'', attempt_port = 8080,
             attempt_timeout_ms = 10000\<rparr>"
proof -
  let ?v6 = "\<lparr>attempt_family = AF_INET6, attempt_address = ''2001:db8::1'', attempt_port = 8080,
         attempt_timeout_ms = 10000\<rparr>"
  have h1: "\<not> is_valid_ipv4 sample_env ''example.org'' \<and> \<not> is_valid_ipv6 sample_env ''example.org''
      \<and> getaddrinfo sample_env (c_str ''example.org'') AF_UNSPEC
          = Gai_ok (mk_addrinfo AF_INET example4) [mk_addrinfo AF_INET6 example6]"
    by (simp add: sample_eval)
  have h2: "is_valid_ipv4 sample_env ''::1'' \<or> is_valid_ipv6 sample_env ''::1''"
    by (simp add: sample_eval)
  have att: "connection_attempts sample_env ''example.org'' 8080 =
       [?v6,
        \<lparr>attempt_family = AF_INET, attempt_address = ''192.0.2.1'', attempt_port = 8080,
         attempt_timeout_ms = 10000\<rparr>]"
    by (rule sample_attempts)
  have h3: "connect_to_peer sample_env (\<lambda>a. True) ''example.org'' 8080 = Some ?v6"
    by (simp add: connect_to_peer_def att)
  have h4: "\<exists>b \<in> set (connection_attempts sample_env ''example.org'' 8080).
              attempt_family b = AF_INET6 \<and> (\<lambda>a. True) b"
    by (simp add: att)
  note t = dual_resolution_keeps_resolver_order [where env = sample_env and h = "''example.org''"
      and r = "mk_addrinfo AF_INET example4" and rs = "[mk_addrinfo AF_INET6 example6]"
      and lit = "''::1''" and host = "''example.org''" and port = 8080 and tcp_ok = True
      and tcp_connect = "\<lambda>a. True" and a = ?v6]
  from t h1 have "resolve_all_addresses_dual sample_env ''example.org'' =
        map (\<lambda>rp. inet_ntop sample_env (ai_family rp) (sa_addr (ai_addr rp)))
            (filter (\<lambda>rp. ai_family rp = AF_INET \<or> ai_family rp = AF_INET6)
               [mk_addrinfo AF_INET example4, mk_addrinfo AF_INET6 example6])"
    by blast
  then have a: "resolve_all_addresses_dual sample_env ''example.org'' = [''192.0.2.1'', ''2001:db8::1'']"
    by (simp add: sample_env_def sample_inet_ntop_def mk_addrinfo_def example4_def example6_def
        loopback4_def loopback6_def)
  from t h2 have b: "resolve_all_addresses_dual sample_env ''::1'' = [''::1'']"
    by blast
  from t have c: "connect_timeouts (cmd_connect_dual ''example.org'' 8080 True) = [10000]"
    by simp
  from t h3 h4 have d: "attempt_family ?v6 = AF_INET6"
    by blast
  from a b c d att h3 show ?thesis
    by simp
qed

text \<open>
  The claim as the specification words it fails: on the sample host the name
  \<^verbatim>\<open>example.org\<close> resolves to both families, the resolver lists the IPv4 address
  first, and so does \<^verbatim>\<open>resolve_all_addresses_dual\<close>.
\<close>

theorem dual_resolution_order_counterexample:
  "getaddrinfo sample_env (c_str ''example.org'') AF_UNSPEC
     = Gai_ok (mk_addrinfo AF_INET example4) [mk_addrinfo AF_INET6 example6]
   \<and> resolve_all_addresses_dual sample_env ''example.org'' = [''192.0.2.1'', ''2001:db8::1'']
   \<and> is_valid_ipv4 sample_env ''192.0.2.1'' \<and> is_valid_ipv6 sample_env ''2001:db8::1''"
  by (simp add: resolve_all_addresses_dual_def sample_eval)

section \<open>Properties of the command-line client\<close>

lemmas stoi_eval = parse_args_def stoi_def isspace_def is_digit_def read_nat_def digit_val_def

lemmas loop_eval = loop_body_def extract_word_def isspace_def dispatch_def

lemma command_loop_leave:
  "leaves_at env n \<Longrightarrow>
   command_loop env n trace =
     Some (trace @ (if running env n then [Ev_is_running, Ev_getline] else [Ev_is_running]))"
  by (subst command_loop.simps) (auto simp: leaves_at_def)

lemma command_loop_continue:
  "\<not> leaves_at env n \<Longrightarrow>
   command_loop env n trace =
     command_loop env (Suc n)
       (trace @ [Ev_is_running, Ev_getline]
          @ (case loop_body (getline_input env n) of Run c rest \<Rightarrow> [Ev_run c rest] | _ \<Rightarrow> []))"
  by (subst command_loop.simps) (auto simp: leaves_at_def split: step.splits)

lemma command_loop_iterate:
  "(\<And>k. k < m \<Longrightarrow> \<not> leaves_at env k) \<Longrightarrow>
   command_loop env 0 trace = command_loop env m (trace @ loop_trace env m)"
proof (induction m)
  case 0
  show ?case by simp
next
  case (Suc m)
  then have "command_loop env 0 trace = command_loop env m (trace @ loop_trace env m)"
    by simp
  also have "\<dots> = command_loop env (Suc m) (trace @ loop_trace env (Suc m))"
    using Suc.prems [of m] by (simp add: command_loop_continue)
  finally show ?case .
qed

lemma command_loop_Some_leaves:
  assumes "command_loop env n trace = Some r"
  shows "\<exists>k. leaves_at env (n + k)"
proof (rule command_loop.raw_induct
    [where P = "\<lambda>env n trace r. \<exists>k. leaves_at env (n + k)", OF _ assms])
  fix f :: "cli_env \<Rightarrow> nat \<Rightarrow> event list \<Rightarrow> event list option"
  fix e m t y
  assume IH: "\<And>e m t y. f e m t = Some y \<Longrightarrow> \<exists>k. leaves_at e (m + k)"
  assume body: "(if \<not> running e m then Some (t @ [Ev_is_running])
      else case loop_body (getline_input e m) of
           Reprompt \<Rightarrow> f e (Suc m) (t @ [Ev_is_running, Ev_getline])
           | Break \<Rightarrow> Some (t @ [Ev_is_running, Ev_getline])
           | Run c rest \<Rightarrow> f e (Suc m) (t @ [Ev_is_running, Ev_getline, Ev_run c rest])) =
     Some y"
  show "\<exists>k. leaves_at e (m + k)"
  proof (cases "leaves_at e m")
    case True
    then show ?thesis
      by (intro exI [of _ 0]) simp
  next
    case False
    with body obtain t' where "f e (Suc m) t' = Some y"
      by (auto simp: leaves_at_def split: step.splits if_splits)
    from IH [OF this] obtain k where "leaves_at e (Suc m + k)"
      by blast
    then show ?thesis
      by (intro exI [of _ "Suc k"]) simp
  qed
qed

lemma first_leave:
  assumes "leaves_at env n"
  shows "\<exists>m\<le>n. leaves_at env m \<and> (\<forall>k<m. \<not> leaves_at env k)"
proof -
  define m where "m = (LEAST k. leaves_at env k)"
  have "leaves_at env m"
    unfolding m_def using assms by (rule LeastI)
  moreover have "m \<le> n"
    unfolding m_def using assms by (rule Least_le)
  moreover have "\<forall>k<m. \<not> leaves_at env k"
    unfolding m_def using not_less_Least by blast
  ultimately show ?thesis
    by blast
qed

lemma main_leaves:
  assumes "parse_args argv = Some args" "start_ok env"
    "leaves_at env m" "\<forall>k<m. \<not> leaves_at env k"
  shows "main argv env = Some (Exit_code 0, clean_shutdown_trace env args m)"
proof -
  have "command_loop env 0 (before_loop env args)
          = command_loop env m (before_loop env args @ loop_trace env m)"
    using assms(4) by (intro command_loop_iterate) simp
  also have "\<dots> = Some ((before_loop env args @ loop_trace env m)
       @ (if running env m then [Ev_is_running, Ev_getline] else [Ev_is_running]))"
    using assms(3) by (rule command_loop_leave)
  finally show ?thesis
    using assms(1,2) by (simp add: main_def Let_def before_loop_def clean_shutdown_trace_def)
qed

lemma main_never_leaves:
  assumes "parse_args argv = Some args" "start_ok env" "\<forall>k. \<not> leaves_at env k"
  shows "main argv env = None"
proof -
  have "command_loop env 0 t = None" for t
  proof (cases "command_loop env 0 t")
    case (Some r)
    from command_loop_Some_leaves [OF this] assms(3) show ?thesis
      by simp
  qed simp
  then show ?thesis
    using assms(1,2) by (simp add: main_def Let_def)
qed

text \<open>
  \<^bold>\<open>C1.\<close> Once the arguments have been read, \<^verbatim>\<open>main\<close> returns exit code 1 when
  \<^verbatim>\<open>start()\<close> fails, and it does so right after the call of \<^verbatim>\<open>start()\<close>,
  without a single test of the loop condition or read of a line. When
  \<^verbatim>\<open>start()\<close> succeeds and some iteration finds the client stopped or reads
  \<^verbatim>\<open>quit\<close> or \<^verbatim>\<open>exit\<close>, \<^verbatim>\<open>main\<close> returns exit code 0, and what
  it did is exactly the clean shutdown at the first such iteration: the set-up, every
  earlier iteration of the loop, the iteration that leaves it, then
  \<^verbatim>\<open>stop_dht_discovery()\<close> and \<^verbatim>\<open>stop()\<close>. When \<^verbatim>\<open>start()\<close> succeeds
  and no iteration ever leaves the loop, \<^verbatim>\<open>main\<close> does not return. So exit code
  0 is returned only after a shutdown that \<^verbatim>\<open>quit\<close>, \<^verbatim>\<open>exit\<close> or the
  stopped client triggered, and no exit code other than 0 and 1 is ever returned.
\<close>

theorem main_exit_codes:
  "parse_args argv = Some args \<Longrightarrow>
     (\<not> start_ok env \<longrightarrow>
        main argv env =
          Some (Exit_code 1,
                [Ev_register_callbacks (register_callbacks (file_transfer_available env)), Ev_start]))
   \<and> (start_ok env \<and> leaves_at env n \<longrightarrow>
        (\<exists>m\<le>n. leaves_at env m \<and> (\<forall>k<m. \<not> leaves_at env k)
           \<and> main argv env = Some (Exit_code 0, clean_shutdown_trace env args m)))
   \<and> (start_ok env \<and> (\<forall>k. \<not> leaves_at env k) \<longrightarrow> main argv env = None)
   \<and> (main argv env = Some (Exit_code c, tr) \<longrightarrow>
        c = (if start_ok env then 0 else 1)
        \<and> (start_ok env \<longrightarrow>
             (\<exists>m. leaves_at env m \<and> (\<forall>k<m. \<not> leaves_at env k)
                  \<and> tr = clean_shutdown_trace env args m)))"
proof -
  assume args: "parse_args argv = Some args"
  have a: "\<not> start_ok env \<longrightarrow>
        main argv env =
          Some (Exit_code 1,
                [Ev_register_callbacks (register_callbacks (file_transfer_available env)), Ev_start])"
    using args by (simp add: main_def)
  have b: "start_ok env \<and> leaves_at env n \<longrightarrow>
        (\<exists>m\<le>n. leaves_at env m \<and> (\<forall>k<m. \<not> leaves_at env k)
           \<and> main argv env = Some (Exit_code 0, clean_shutdown_trace env args m))"
  proof
    assume h: "start_ok env \<and> leaves_at env n"
    then obtain m where m: "m \<le> n" "leaves_at env m" "\<forall>k<m. \<not> leaves_at env k"
      using first_leave [of env n] by blast
    with h args have "main argv env = Some (Exit_code 0, clean_shutdown_trace env args m)"
      by (intro main_leaves) simp_all
    with m show "\<exists>m\<le>n. leaves_at env m \<and> (\<forall>k<m. \<not> leaves_at env k)
           \<and> main argv env = Some (Exit_code 0, clean_shutdown_trace env args m)"
      by blast
  qed
  have c: "start_ok env \<and> (\<forall>k. \<not> leaves_at env k) \<longrightarrow> main argv env = None"
    using args main_never_leaves [of argv args env] by blast
  have d: "main argv env = Some (Exit_code c, tr) \<longrightarrow>
        c = (if start_ok env then 0 else 1)
        \<and> (start_ok env \<longrightarrow>
             (\<exists>m. leaves_at env m \<and> (\<forall>k<m. \<not> leaves_at env k)
                  \<and> tr = clean_shutdown_trace env args m))"
  proof
    assume r: "main argv env = Some (Exit_code c, tr)"
    have c1: "c = (if start_ok env then 0 else 1)"
      using args r by (auto simp: main_def Let_def split: option.splits if_splits)
    have c2: "\<exists>m. leaves_at env m \<and> (\<forall>k<m. \<not> leaves_at env k)
                  \<and> tr = clean_shutdown_trace env args m" if s: "start_ok env"
    proof -
      have "\<exists>k. leaves_at env k"
      proof (rule ccontr)
        assume "\<not> (\<exists>k. leaves_at env k)"
        with c s have "main argv env = None"
          by blast
        with r show False
          by simp
      qed
      then obtain n' where "leaves_at env n'"
        by blast
      with s args obtain m where m: "leaves_at env m" "\<forall>k<m. \<not> leaves_at env k"
        "main argv env = Some (Exit_code 0, clean_shutdown_trace env args m)"
        using first_leave [of env n'] main_leaves [of argv args env] by blast
      with r show ?thesis
        by auto
    qed
    from c1 c2 show "c = (if start_ok env then 0 else 1)
        \<and> (start_ok env \<longrightarrow>
             (\<exists>m. leaves_at env m \<and> (\<forall>k<m. \<not> leaves_at env k)
                  \<and> tr = clean_shutdown_trace env args m))"
      by blast
  qed
  from a b c d show ?thesis by blast
qed

theorem main_exit_codes_witness:
  "main [''rats''] failing_start =
     Some (Exit_code 1, [Ev_register_callbacks (register_callbacks True), Ev_start])
   \<and> main [''rats'', ''8081'', ''localhost'', ''8080''] quit_after_list =
       Some (Exit_code 0,
             [Ev_register_callbacks (register_callbacks True), Ev_start, Ev_start_dht_discovery,
              Ev_connect_to_peer ''localhost'' 8080,
              Ev_is_running, Ev_getline, Ev_run Cmd_list [],
              Ev_is_running, Ev_getline,
              Ev_is_running, Ev_getline,
              Ev_stop_dht_discovery, Ev_stop])
   \<and> main [''rats''] stops_after_one =
       Some (Exit_code 0,
             [Ev_register_callbacks (register_callbacks True), Ev_start, Ev_start_dht_discovery,
              Ev_is_running, Ev_getline, Ev_run Cmd_peers [],
              Ev_is_running,
              Ev_stop_dht_discovery, Ev_stop])
   \<and> main [''rats''] help_forever = None"
proof -
  let ?a1 = "\<lparr>listen_port = 8080, peer_host = [], peer_port = 0\<rparr>"
  let ?a2 = "\<lparr>listen_port = 8081, peer_host = ''localhost'', peer_port = 8080\<rparr>"
  have p1: "parse_args [''rats''] = Some ?a1"
    by (simp add: stoi_eval)
  have p2: "parse_args [''rats'', ''8081'', ''localhost'', ''8080''] = Some ?a2"
    by (simp add: stoi_eval)
  have a: "main [''rats''] failing_start =
     Some (Exit_code 1, [Ev_register_callbacks (register_callbacks True), Ev_start])"
    using main_exit_codes [OF p1, of failing_start 0 0 "[]"]
    by (simp add: failing_start_def)
  have q: "start_ok quit_after_list \<and> leaves_at quit_after_list 2"
    by (simp add: quit_after_list_def leaves_at_def loop_eval)
  have q01: "\<not> leaves_at quit_after_list 0" "\<not> leaves_at quit_after_list 1"
    by (simp_all add: quit_after_list_def leaves_at_def loop_eval)
  from main_exit_codes [OF p2, of quit_after_list 2 0 "[]"] q
  obtain m where m: "m \<le> 2" "leaves_at quit_after_list m"
    "main [''rats'', ''8081'', ''localhost'', ''8080''] quit_after_list
       = Some (Exit_code 0, clean_shutdown_trace quit_after_list ?a2 m)"
    by blast
  from m(1) have "m = 0 \<or> m = 1 \<or> m = 2"
    by linarith
  with m(2) q01 have m2: "m = Suc (Suc 0)"
    by auto
  have b: "main [''rats'', ''8081'', ''localhost'', ''8080''] quit_after_list =
       Some (Exit_code 0,
             [Ev_register_callbacks (register_callbacks True), Ev_start, Ev_start_dht_discovery,
              Ev_connect_to_peer ''localhost'' 8080,
              Ev_is_running, Ev_getline, Ev_run Cmd_list [],
              Ev_is_running, Ev_getline,
              Ev_is_running, Ev_getline,
              Ev_stop_dht_discovery, Ev_stop])"
    unfolding m(3) m2
    by (simp add: clean_shutdown_trace_def before_loop_def quit_after_list_def loop_eval)
  have s: "start_ok stops_after_one \<and> leaves_at stops_after_one 1"
    by (simp add: stops_after_one_def leaves_at_def)
  have s0: "\<not> leaves_at stops_after_one 0"
    by (simp add: stops_after_one_def leaves_at_def loop_eval)
  from main_exit_codes [OF p1, of stops_after_one 1 0 "[]"] s
  obtain k where k: "k \<le> 1" "leaves_at stops_after_one k"
    "main [''rats''] stops_after_one
       = Some (Exit_code 0, clean_shutdown_trace stops_after_one ?a1 k)"
    by blast
  from k(1) have "k = 0 \<or> k = 1"
    by linarith
  with k(2) s0 have k1: "k = Suc 0"
    by auto
  have c: "main [''rats''] stops_after_one =
       Some (Exit_code 0,
             [Ev_register_callbacks (register_callbacks True), Ev_start, Ev_start_dht_discovery,
              Ev_is_running, Ev_getline, Ev_run Cmd_peers [],
              Ev_is_running,
              Ev_stop_dht_discovery, Ev_stop])"
    unfolding k(3) k1
    by (simp add: clean_shutdown_trace_def before_loop_def stops_after_one_def loop_eval)
  have f: "start_ok help_forever \<and> (\<forall>k. \<not> leaves_at help_forever k)"
    by (simp add: help_forever_def leaves_at_def loop_eval)
  have d: "main [''rats''] help_forever = None"
    using main_exit_codes [OF p1, of help_forever 0 0 "[]"] f by blast
  from a b c d show ?thesis
    by simp
qed

text \<open>
  \<^bold>\<open>C2.\<close> The acceptance callbacks the client registers for incoming file-transfer
  requests and incoming file requests return true for every peer, every file name, every
  size and every transfer id: the demo client accepts every incoming file.
\<close>

theorem callbacks_auto_accept:
  "(file_transfer_request_cb (register_callbacks avail) = Some f
      \<longrightarrow> snd (f peer_id metadata transfer_id) = True)
   \<and> (file_request_cb (register_callbacks avail) = Some g
      \<longrightarrow> snd (g peer_id' file_path transfer_id') = True)"
  by (auto simp: register_callbacks_def on_file_transfer_request_def on_file_request_def
           split: if_splits)

theorem callbacks_auto_accept_witness:
  "file_transfer_request_cb (register_callbacks True) = Some on_file_transfer_request
   \<and> snd (on_file_transfer_request ''peer1'' \<lparr>filename = ''a.bin'', file_size = 1048576\<rparr> ''t-1'') = True
   \<and> file_request_cb (register_callbacks True) = Some on_file_request
   \<and> snd (on_file_request ''peer1'' ''/etc/passwd'' ''t-2'') = True"
proof -
  have r1: "file_transfer_request_cb (register_callbacks True) = Some on_file_transfer_request"
    by (simp add: register_callbacks_def)
  have r2: "file_request_cb (register_callbacks True) = Some on_file_request"
    by (simp add: register_callbacks_def)
  from callbacks_auto_accept [of True on_file_transfer_request "''peer1''"
      "\<lparr>filename = ''a.bin'', file_size = 1048576\<rparr>" "''t-1''" on_file_request "''peer1''"
      "''/etc/passwd''" "''t-2''"]
    r1 r2
  show ?thesis by simp
qed

text \<open>
  \<^bold>\<open>C4 (as amended).\<close> An empty line only shows the prompt again. For a line that is
  not empty, the first word decides: \<^verbatim>\<open>quit\<close> and \<^verbatim>\<open>exit\<close> leave the loop;
  each of \<^verbatim>\<open>connect\<close>, \<^verbatim>\<open>list\<close>, \<^verbatim>\<open>broadcast\<close>, \<^verbatim>\<open>send\<close>,
  \<^verbatim>\<open>dht_find\<close>, \<^verbatim>\<open>dht_announce\<close>, \<^verbatim>\<open>file_send\<close> and
  \<^verbatim>\<open>transfer_list\<close> runs its own branch with the rest of the line; a word that is
  none of the 31 words the chain knows reaches the unknown-command branch, and only such
  a word does.
\<close>

theorem command_loop_dispatch:
  "loop_body [] = Reprompt
   \<and> (l1 \<noteq> [] \<and> (fst (extract_word l1) = ''quit'' \<or> fst (extract_word l1) = ''exit'')
        \<longrightarrow> loop_body l1 = Break)
   \<and> (l2 \<noteq> [] \<and> (fst (extract_word l2), c) \<in> set
          [(''connect'', Cmd_connect), (''list'', Cmd_list), (''broadcast'', Cmd_broadcast),
           (''send'', Cmd_send), (''dht_find'', Cmd_dht_find), (''dht_announce'', Cmd_dht_announce),
           (''file_send'', Cmd_file_send), (''transfer_list'', Cmd_transfer_list)]
        \<longrightarrow> loop_body l2 = Run c (snd (extract_word l2)))
   \<and> (l3 \<noteq> [] \<and> fst (extract_word l3) \<notin> set command_words
        \<longrightarrow> loop_body l3 = Run (Cmd_unknown (fst (extract_word l3))) (snd (extract_word l3)))
   \<and> (loop_body l4 = Run (Cmd_unknown w) rest
        \<longrightarrow> l4 \<noteq> [] \<and> w = fst (extract_word l4) \<and> w \<notin> set command_words)"
proof -
  have a: "loop_body [] = Reprompt"
    by (simp add: loop_body_def)
  have b: "l1 \<noteq> [] \<and> (fst (extract_word l1) = ''quit'' \<or> fst (extract_word l1) = ''exit'')
        \<longrightarrow> loop_body l1 = Break"
    by (auto simp: loop_body_def split: prod.splits)
  have c: "l2 \<noteq> [] \<and> (fst (extract_word l2), c) \<in> set
          [(''connect'', Cmd_connect), (''list'', Cmd_list), (''broadcast'', Cmd_broadcast),
           (''send'', Cmd_send), (''dht_find'', Cmd_dht_find), (''dht_announce'', Cmd_dht_announce),
           (''file_send'', Cmd_file_send), (''transfer_list'', Cmd_transfer_list)]
        \<longrightarrow> loop_body l2 = Run c (snd (extract_word l2))"
    by (auto simp: loop_body_def dispatch_def split: prod.splits)
  have d: "l3 \<noteq> [] \<and> fst (extract_word l3) \<notin> set command_words
        \<longrightarrow> loop_body l3 = Run (Cmd_unknown (fst (extract_word l3))) (snd (extract_word l3))"
    by (auto simp: loop_body_def dispatch_def command_words_def split: prod.splits)
  have e: "loop_body l4 = Run (Cmd_unknown w) rest
        \<longrightarrow> l4 \<noteq> [] \<and> w = fst (extract_word l4) \<and> w \<notin> set command_words"
    by (auto simp: loop_body_def dispatch_def command_words_def split: prod.splits if_splits)
  from a b c d e show ?thesis by blast
qed

theorem command_loop_dispatch_witness:
  "loop_body ''  exit'' = Break
   \<and> loop_body ''dht_find 0123abcd'' = Run Cmd_dht_find '' 0123abcd''
   \<and> loop_body ''frobnicate now'' = Run (Cmd_unknown ''frobnicate'') '' now''
   \<and> ''frobnicate'' \<notin> set command_words"
proof -
  have h1: "''  exit'' \<noteq> [] \<and> (fst (extract_word ''  exit'') = ''quit'' \<or> fst (extract_word ''  exit'') = ''exit'')"
    by (simp add: extract_word_def isspace_def)
  have h2: "''dht_find 0123abcd'' \<noteq> [] \<and> (fst (extract_word ''dht_find 0123abcd''), Cmd_dht_find) \<in> set
          [(''connect'', Cmd_connect), (''list'', Cmd_list), (''broadcast'', Cmd_broadcast),
           (''send'', Cmd_send), (''dht_find'', Cmd_dht_find), (''dht_announce'', Cmd_dht_announce),
           (''file_send'', Cmd_file_send), (''transfer_list'', Cmd_transfer_list)]"
    by (simp add: extract_word_def isspace_def)
  have h3: "''frobnicate now'' \<noteq> [] \<and> fst (extract_word ''frobnicate now'') \<notin> set command_words"
    by (simp add: extract_word_def isspace_def command_words_def)
  have h4: "loop_body ''frobnicate now'' = Run (Cmd_unknown ''frobnicate'') '' now''"
    by (simp add: loop_eval)
  from command_loop_dispatch [of "''  exit''" "''dht_find 0123abcd''" Cmd_dht_find
      "''frobnicate now''" "''frobnicate now''" "''frobnicate''" "'' now''"] h1 h2 h3 h4
  show ?thesis
    by (simp add: extract_word_def isspace_def)
qed

text \<open>
  The claim as the specification words it fails twice. The word \<^verbatim>\<open>help\<close> is none
  of the nine commands the specification lists, and it runs the help branch, not the
  unknown-command branch. The empty line is none of them either, and it reaches no
  branch at all.
\<close>

theorem unknown_command_counterexample:
  "fst (extract_word ''help'') \<notin> set [''connect'', ''list'', ''broadcast'', ''send'', ''dht_find'',
        ''dht_announce'', ''file_send'', ''transfer_list'', ''quit'']
   \<and> loop_body ''help'' = Run Cmd_help []
   \<and> loop_body [] = Reprompt"
  by (simp add: loop_eval)

section \<open>Properties of the bencode codec\<close>

lemma digit_char_is_digit: "d < 10 \<Longrightarrow> is_digit (digit_char d)"
  by (simp add: is_digit_def digit_char_def less_eq_char_def)

lemma digit_val_digit_char: "d < 10 \<Longrightarrow> digit_val (digit_char d) = d"
  by (simp add: digit_val_def digit_char_def)

lemma digit_char_zero: "d < 10 \<Longrightarrow> digit_char d = CHR ''0'' \<longleftrightarrow> d = 0"
proof
  assume d: "d < 10" and eq: "digit_char d = CHR ''0''"
  from eq have "(of_char (digit_char d) :: nat) = of_char CHR ''0''"
    by simp
  with d show "d = 0"
    by (simp add: digit_char_def)
next
  assume "d = 0"
  moreover have "(of_char (char_of (48 :: nat)) :: nat) = of_char CHR ''0''"
    by simp
  then have "char_of (48 :: nat) = CHR ''0''"
    by (simp only: of_char_eq_iff)
  ultimately show "digit_char d = CHR ''0''"
    by (simp add: digit_char_def)
qed

lemma show_nat_digits: "list_all is_digit (show_nat n)"
proof (induction n rule: show_nat.induct)
  case (1 n)
  show ?case
  proof (cases "n < 10")
    case True
    then show ?thesis
      by (subst show_nat.simps) (simp add: digit_char_is_digit)
  next
    case False
    with "1" show ?thesis
      by (subst show_nat.simps) (simp add: digit_char_is_digit)
  qed
qed

lemma show_nat_nonempty: "show_nat n \<noteq> []"
  by (subst show_nat.simps) simp

lemma read_nat_snoc: "read_nat (ds @ [c]) = read_nat ds * 10 + digit_val c"
  by (simp add: read_nat_def)

lemma read_show_nat: "read_nat (show_nat n) = n"
proof (induction n rule: show_nat.induct)
  case (1 n)
  show ?case
  proof (cases "n < 10")
    case True
    then show ?thesis
      by (subst show_nat.simps) (simp add: read_nat_def digit_val_digit_char)
  next
    case False
    with "1" have "read_nat (show_nat (n div 10)) = n div 10"
      by simp
    with False show ?thesis
      by (subst show_nat.simps) (simp add: read_nat_snoc digit_val_digit_char)
  qed
qed

lemma show_nat_hd: "hd (show_nat n) = CHR ''0'' \<longleftrightarrow> n = 0"
proof (induction n rule: show_nat.induct)
  case (1 n)
  show ?case
  proof (cases "n < 10")
    case True
    then show ?thesis
      by (subst show_nat.simps) (simp add: digit_char_zero)
  next
    case False
    with "1" have "hd (show_nat (n div 10)) = CHR ''0'' \<longleftrightarrow> n div 10 = 0"
      by simp
    moreover from False have "n div 10 \<noteq> 0"
      by simp
    ultimately show ?thesis
      using False by (subst show_nat.simps) (simp add: show_nat_nonempty)
  qed
qed

lemma show_nat_zero: "show_nat n = ''0'' \<longleftrightarrow> n = 0"
proof
  assume "show_nat n = ''0''"
  then have "hd (show_nat n) = CHR ''0''"
    by simp
  then show "n = 0"
    by (simp add: show_nat_hd)
next
  assume "n = 0"
  then show "show_nat n = ''0''"
    using digit_char_zero [of 0] by (subst show_nat.simps) simp
qed

lemma takeWhile_digits:
  "list_all is_digit ds \<Longrightarrow> \<not> is_digit c \<Longrightarrow> takeWhile is_digit (ds @ c # rest) = ds"
  by (induction ds) auto

lemma dropWhile_digits:
  "list_all is_digit ds \<Longrightarrow> \<not> is_digit c \<Longrightarrow> dropWhile is_digit (ds @ c # rest) = c # rest"
  by (induction ds) auto

lemma decode_encode_string: "decode_string (encode_string s @ rest) = Some (s, rest)"
proof -
  have nd: "\<not> is_digit CHR '':''"
    by (simp add: is_digit_def less_eq_char_def)
  have "encode_string s @ rest = show_nat (length s) @ CHR '':'' # (s @ rest)"
    by (simp add: encode_string_def)
  then show ?thesis
    by (simp add: decode_string_def takeWhile_digits dropWhile_digits show_nat_digits nd
        show_nat_nonempty read_show_nat)
qed

lemma decode_show_int: "decode_int (show_int i @ CHR ''e'' # rest) = Some (i, rest)"
proof -
  have nd: "\<not> is_digit CHR ''e''" "\<not> is_digit CHR ''-''"
    by (simp_all add: is_digit_def less_eq_char_def)
  show ?thesis
  proof (cases "i < 0")
    case True
    define n where "n = nat (- i)"
    from True have n: "n \<noteq> 0" "i = - int n"
      by (simp_all add: n_def)
    have inp: "show_int i @ CHR ''e'' # rest = CHR ''-'' # (show_nat n @ CHR ''e'' # rest)"
      using True by (simp add: show_int_def n_def)
    have lz: "\<not> (length (show_nat n) > 1 \<and> hd (show_nat n) = CHR ''0'')"
      using n by (simp add: show_nat_hd)
    have nz: "show_nat n \<noteq> ''0''"
      using n by (simp add: show_nat_zero)
    show ?thesis
      unfolding inp using lz nz n
      by (simp add: decode_int_def Let_def takeWhile_digits dropWhile_digits show_nat_digits nd
          show_nat_nonempty read_show_nat)
  next
    case False
    define n where "n = nat i"
    from False have n: "i = int n"
      by (simp add: n_def)
    have inp: "show_int i @ CHR ''e'' # rest = show_nat n @ CHR ''e'' # rest"
      using False by (simp add: show_int_def n_def)
    have hd_nm: "hd (show_nat n @ CHR ''e'' # rest) \<noteq> CHR ''-''"
      using show_nat_digits [of n] nd show_nat_nonempty [of n]
      by (cases "show_nat n") auto
    have lz: "\<not> (length (show_nat n) > 1 \<and> hd (show_nat n) = CHR ''0'')"
    proof
      assume a: "length (show_nat n) > 1 \<and> hd (show_nat n) = CHR ''0''"
      then have "n = 0"
        by (simp add: show_nat_hd)
      then have "show_nat n = ''0''"
        by (simp add: show_nat_zero)
      with a show False
        by simp
    qed
    show ?thesis
      unfolding inp using lz hd_nm n
      by (simp add: decode_int_def Let_def takeWhile_digits dropWhile_digits show_nat_digits nd
          show_nat_nonempty read_show_nat)
  qed
qed


lemma encode_string_hd: "\<exists>c cs. encode_string s = c # cs \<and> is_digit c"
  using show_nat_digits [of "length s"] show_nat_nonempty [of "length s"]
  by (cases "show_nat (length s)") (auto simp: encode_string_def)

lemma encode_hd: "\<exists>c cs. encode x = c # cs \<and> c \<noteq> CHR ''e''"
proof (cases x)
  case (BString s)
  obtain c cs where "encode_string s = c # cs" "is_digit c"
    using encode_string_hd by blast
  moreover have "\<not> is_digit CHR ''e''"
    by (simp add: is_digit_def less_eq_char_def)
  ultimately show ?thesis
    using BString by auto
qed auto

lemma encode_length_pos: "0 < length (encode x)"
  using encode_hd [of x] by auto

lemma decode_list_items:
  assumes "\<And>x fuel d rest. x \<in> set xs \<Longrightarrow> length (encode x) \<le> fuel \<Longrightarrow> nesting x \<le> d
             \<Longrightarrow> decode_value fuel d (encode x @ rest) = Some (x, rest)"
    and "length (concat (map encode xs)) < fuel"
    and "\<forall>x \<in> set xs. nesting x \<le> d"
  shows "decode_list fuel d (concat (map encode xs) @ CHR ''e'' # rest) = Some (xs, rest)"
  using assms
proof (induction xs arbitrary: fuel)
  case Nil
  then obtain f where "fuel = Suc f"
    by (cases fuel) auto
  then show ?case by simp
next
  case (Cons x xs)
  from Cons.prems(2) obtain f where f: "fuel = Suc f"
    by (cases fuel) auto
  obtain c cs where enc: "encode x = c # cs" and ne: "c \<noteq> CHR ''e''"
    using encode_hd by blast
  have "length (encode x) + length (concat (map encode xs)) < Suc f"
    using Cons.prems(2) f by simp
  with encode_length_pos [of x]
  have len: "length (encode x) \<le> f" "length (concat (map encode xs)) < f"
    by linarith+
  have v: "decode_value f d (encode x @ concat (map encode xs) @ CHR ''e'' # rest)
             = Some (x, concat (map encode xs) @ CHR ''e'' # rest)"
    using Cons.prems(1) [of x f d] len Cons.prems(3) by simp
  have l: "decode_list f d (concat (map encode xs) @ CHR ''e'' # rest) = Some (xs, rest)"
    using Cons.IH [of f] Cons.prems(1) len Cons.prems(3) by simp
  have "decode_list (Suc f) d (c # cs @ concat (map encode xs) @ CHR ''e'' # rest)
          = Some (x # xs, rest)"
    using ne v l by (simp add: enc)
  then show ?case
    by (simp add: f enc)
qed


lemma decode_dict_items:
  assumes "\<And>k v fuel d rest. (k, v) \<in> set kvs \<Longrightarrow> length (encode v) \<le> fuel \<Longrightarrow> nesting v \<le> d
             \<Longrightarrow> decode_value fuel d (encode v @ rest) = Some (v, rest)"
    and "length (concat (map (\<lambda>(k, v). encode_string k @ encode v) kvs)) < fuel"
    and "\<forall>(k, v) \<in> set kvs. nesting v \<le> d"
    and "sorted_wrt (<) (map fst kvs)"
    and "case prev of None \<Rightarrow> True | Some p \<Rightarrow> \<forall>k \<in> set (map fst kvs). p < k"
  shows "decode_dict fuel d prev
           (concat (map (\<lambda>(k, v). encode_string k @ encode v) kvs) @ CHR ''e'' # rest)
         = Some (kvs, rest)"
  using assms
proof (induction kvs arbitrary: fuel prev)
  case Nil
  then obtain f where "fuel = Suc f"
    by (cases fuel) auto
  then show ?case by simp
next
  case (Cons kv kvs)
  obtain k v where kv: "kv = (k, v)"
    by (cases kv)
  from Cons.prems(2) obtain f where f: "fuel = Suc f"
    by (cases fuel) auto
  obtain c cs where enc: "encode_string k = c # cs" and dg: "is_digit c"
    using encode_string_hd by blast
  have ne: "c \<noteq> CHR ''e''"
    using dg by (auto simp: is_digit_def less_eq_char_def)
  let ?tail = "concat (map (\<lambda>(k, v). encode_string k @ encode v) kvs) @ CHR ''e'' # rest"
  have "length (encode_string k) + length (encode v)
          + length (concat (map (\<lambda>(k, v). encode_string k @ encode v) kvs)) < Suc f"
    using Cons.prems(2) f kv by simp
  with encode_length_pos [of v]
  have len: "length (encode v) \<le> f"
    "length (concat (map (\<lambda>(k, v). encode_string k @ encode v) kvs)) < f"
    by linarith+
  have key: "decode_string (c # cs @ encode v @ ?tail) = Some (k, encode v @ ?tail)"
    using decode_encode_string [of k "encode v @ ?tail"] by (simp add: enc)
  have prev_ok: "\<not> (case prev of None \<Rightarrow> False | Some p \<Rightarrow> \<not> p < k)"
    using Cons.prems(5) kv by (cases prev) auto
  have v: "decode_value f d (encode v @ ?tail) = Some (v, ?tail)"
    using Cons.prems(1) [of k v f d ?tail] len Cons.prems(3) kv by simp
  have next_prev: "case Some k of None \<Rightarrow> True | Some p \<Rightarrow> \<forall>k' \<in> set (map fst kvs). p < k'"
    using Cons.prems(4) kv by auto
  have l: "decode_dict f d (Some k) ?tail = Some (kvs, rest)"
  proof (rule Cons.IH [of f "Some k"])
    fix k' v' fuel' d'' rest'
    assume "(k', v') \<in> set kvs" "length (encode v') \<le> fuel'" "nesting v' \<le> d''"
    then show "decode_value fuel' d'' (encode v' @ rest') = Some (v', rest')"
      using Cons.prems(1) [of k' v' fuel' d'' rest'] by simp
  next
    show "length (concat (map (\<lambda>(k, v). encode_string k @ encode v) kvs)) < f"
      by (rule len(2))
  next
    show "\<forall>(k, v) \<in> set kvs. nesting v \<le> d"
      using Cons.prems(3) by simp
  next
    show "sorted_wrt (<) (map fst kvs)"
      using Cons.prems(4) by simp
  next
    show "case Some k of None \<Rightarrow> True | Some p \<Rightarrow> \<forall>k' \<in> set (map fst kvs). p < k'"
      by (rule next_prev)
  qed
  have "decode_dict (Suc f) d prev (c # cs @ encode v @ ?tail) = Some ((k, v) # kvs, rest)"
    using ne key prev_ok v l by simp
  then show ?case
    by (simp add: f kv enc)
qed

lemma fold_max_ge: "(a::nat) \<le> fold max ys a \<and> (\<forall>y \<in> set ys. y \<le> fold max ys a)"
proof (induction ys arbitrary: a)
  case Nil
  show ?case by simp
next
  case (Cons y ys)
  from Cons [of "max y a"] show ?case
    by auto
qed

lemma sorted_entries_encoding:
  assumes "sorted_wrt (<) (map fst kvs)"
  shows "concat (map (\<lambda>(k, e). encode_string k @ e)
                   (sort_key fst (map (\<lambda>(k, v). (k, encode v)) kvs)))
         = concat (map (\<lambda>(k, v). encode_string k @ encode v) kvs)"
proof -
  have fst_eq: "map fst (map (\<lambda>(k, v). (k, encode v)) kvs) = map fst kvs"
    by (induction kvs) auto
  have "sorted (map fst (map (\<lambda>(k, v). (k, encode v)) kvs))"
    unfolding fst_eq using assms by (rule strict_sorted_imp_sorted)
  then have "sort_key fst (map (\<lambda>(k, v). (k, encode v)) kvs) = map (\<lambda>(k, v). (k, encode v)) kvs"
    by (rule sort_key_id_if_sorted)
  then show ?thesis
    by (simp add: comp_def case_prod_unfold)
qed

lemma decode_encode_value:
  "keys_ascending x \<Longrightarrow> length (encode x) \<le> fuel \<Longrightarrow> nesting x \<le> d
   \<Longrightarrow> decode_value fuel d (encode x @ rest) = Some (x, rest)"
proof (induction x arbitrary: fuel d rest)
  case (BString s)
  from BString.prems(2) encode_length_pos [of "BString s"] obtain f where f: "fuel = Suc f"
    by (cases fuel) auto
  obtain c cs where enc: "encode_string s = c # cs" and dg: "is_digit c"
    using encode_string_hd by blast
  have ne: "c \<noteq> CHR ''i''" "c \<noteq> CHR ''l''" "c \<noteq> CHR ''d''"
    using dg by (auto simp: is_digit_def less_eq_char_def)
  have "decode_string (c # cs @ rest) = Some (s, rest)"
    using decode_encode_string [of s rest] by (simp add: enc)
  then show ?case
    using ne by (simp add: f enc)
next
  case (BInt i)
  from BInt.prems(2) obtain f where f: "fuel = Suc f"
    by (cases fuel) auto
  show ?case
    by (simp add: f decode_show_int)
next
  case (BList xs)
  from BList.prems(2) obtain f where f: "fuel = Suc f"
    by (cases fuel) auto
  from BList.prems(3) obtain d' where d': "d = Suc d'"
    by (cases d) auto
  have dep: "\<forall>x \<in> set xs. nesting x \<le> d'"
    using BList.prems(3) d' fold_max_ge [of 0 "map nesting xs"] by auto
  have asc: "\<forall>x \<in> set xs. keys_ascending x"
    using BList.prems(1) by (simp add: list_all_iff)
  have len: "length (concat (map encode xs)) < f"
    using BList.prems(2) f by simp
  have "decode_list f d' (concat (map encode xs) @ CHR ''e'' # rest) = Some (xs, rest)"
    using BList.IH asc len dep by (intro decode_list_items) auto
  then show ?case
    by (simp add: f d')
next
  case (BDict kvs)
  from BDict.prems(2) obtain f where f: "fuel = Suc f"
    by (cases fuel) auto
  from BDict.prems(3) obtain d' where d': "d = Suc d'"
    by (cases d) auto
  have srt: "sorted_wrt (<) (map fst kvs)"
    using BDict.prems(1) by simp
  have dep: "\<forall>(k, v) \<in> set kvs. nesting v \<le> d'"
    using BDict.prems(3) d' fold_max_ge [of 0 "map (\<lambda>(k, v). nesting v) kvs"] by fastforce
  have asc: "\<forall>(k, v) \<in> set kvs. keys_ascending v"
    using BDict.prems(1) by (simp add: list_all_iff)
  have enc: "encode (BDict kvs) =
      CHR ''d'' # concat (map (\<lambda>(k, v). encode_string k @ encode v) kvs) @ ''e''"
    by (simp add: sorted_entries_encoding [OF srt])
  have len: "length (concat (map (\<lambda>(k, v). encode_string k @ encode v) kvs)) < f"
    using BDict.prems(2) f unfolding enc by simp
  have vals: "decode_value fuel d rest' = Some (v, rest'')"
    if "(k, v) \<in> set kvs" "length (encode v) \<le> fuel" "nesting v \<le> d"
      "rest' = encode v @ rest''" for k v fuel d rest' rest''
    using BDict.IH [of "(k, v)" v fuel d rest''] that asc by auto
  have "decode_dict f d' None
          (concat (map (\<lambda>(k, v). encode_string k @ encode v) kvs) @ CHR ''e'' # rest)
        = Some (kvs, rest)"
    using len dep srt vals by (intro decode_dict_items) auto
  then show ?case
    unfolding enc by (simp add: f d')
qed


lemma insort_key_map:
  assumes "\<And>x. f' (g x) = f x"
  shows "insort_key f' (g x) (map g ys) = map g (insort_key f x ys)"
  by (induction ys) (simp_all add: assms)

lemma sort_key_map:
  assumes "\<And>x. f' (g x) = f x"
  shows "sort_key f' (map g xs) = map g (sort_key f xs)"
  by (induction xs) (simp_all add: insort_key_map [of f' g f, OF assms])

lemma map_insort_key: "map f (insort_key f x ys) = insort (f x) (map f ys)"
  by (induction ys) simp_all

lemma map_sort_key: "map f (sort_key f xs) = sort (map f xs)"
  by (induction xs) (simp_all add: map_insort_key)

lemma sort_key_idem: "sort_key f (sort_key f xs) = sort_key f xs"
  by (rule sort_key_id_if_sorted) simp

lemma fold_max_set: "fold max ys (a::nat) = Max (insert a (set ys))"
  using Max.set_eq_fold [of a ys] by simp

lemma encode_canonical: "encode (canonical x) = encode x"
proof (induction x)
  case (BList xs)
  then show ?case
    by (simp add: comp_def cong: map_cong)
next
  case (BDict kvs)
  let ?e = "\<lambda>(k, v). (k, encode v)"
  let ?c = "\<lambda>(k, v). (k, canonical v)"
  have keep: "fst (?e p) = fst p" for p :: "string \<times> bvalue"
    by (cases p) simp
  have "map ?e (map ?c kvs) = map ?e kvs"
    using BDict.IH by (auto simp: case_prod_unfold)
  then have "sort_key fst (map ?e (sort_key fst (map ?c kvs))) = sort_key fst (map ?e kvs)"
    by (simp only: sort_key_map [of fst ?e fst, OF keep, symmetric] sort_key_idem)
  then show ?case
    by simp
qed simp_all

lemma nesting_canonical: "nesting (canonical x) = nesting x"
proof (induction x)
  case (BList xs)
  then show ?case
    by (simp add: comp_def cong: map_cong)
next
  case (BDict kvs)
  have "(\<lambda>(k, v). nesting v) ` set (sort_key fst (map (\<lambda>(k, v). (k, canonical v)) kvs))
          = (\<lambda>(k, v). nesting v) ` set kvs"
    using BDict.IH by (force simp: case_prod_unfold image_iff)
  then show ?case
    by (simp add: fold_max_set)
qed simp_all

lemma keys_ascending_canonical: "distinct_keys x \<Longrightarrow> keys_ascending (canonical x)"
proof (induction x)
  case (BList xs)
  then show ?case
    by (auto simp: list_all_iff)
next
  case (BDict kvs)
  let ?c = "\<lambda>(k, v). (k, canonical v)"
  have fst_eq: "map fst (map ?c kvs) = map fst kvs"
    by (induction kvs) auto
  have "map fst (sort_key fst (map ?c kvs)) = sort (map fst kvs)"
    by (simp only: map_sort_key fst_eq)
  then have "distinct (map fst (sort_key fst (map ?c kvs)))"
    using BDict.prems by simp
  then have srt: "sorted_wrt (<) (map fst (sort_key fst (map ?c kvs)))"
    by (simp add: strict_sorted_iff)
  have "\<forall>(k, v) \<in> set (sort_key fst (map ?c kvs)). keys_ascending v"
    using BDict.IH BDict.prems by (fastforce simp: list_all_iff)
  with srt show ?case
    by (simp add: list_all_iff)
qed simp_all


lemma keys_ascending_distinct: "keys_ascending x \<Longrightarrow> distinct_keys x"
proof (induction x)
  case (BList xs)
  then show ?case
    by (auto simp: list_all_iff)
next
  case (BDict kvs)
  then have "distinct (map fst kvs)"
    by (simp add: strict_sorted_iff)
  moreover have "\<forall>(k, v) \<in> set kvs. distinct_keys v"
    using BDict.IH BDict.prems by (fastforce simp: list_all_iff)
  ultimately show ?case
    by (simp add: list_all_iff)
qed simp_all

lemma decode_prefix_encode:
  assumes "valid x"
  shows "decode_prefix (encode x @ rest) = Some (x, rest)"
  using assms
  by (simp add: decode_prefix_def valid_def decode_encode_value)

lemma digit_char_numerals:
  "digit_char 0 = CHR ''0''" "digit_char 1 = CHR ''1''" "digit_char (Suc 0) = CHR ''1''"
  "digit_char (Suc (Suc 0)) = CHR ''2''"
  "digit_char 2 = CHR ''2''" "digit_char 3 = CHR ''3''" "digit_char 4 = CHR ''4''"
  "digit_char 5 = CHR ''5''" "digit_char 6 = CHR ''6''" "digit_char 7 = CHR ''7''"
  "digit_char 8 = CHR ''8''" "digit_char 9 = CHR ''9''"
  unfolding digit_char_def
  by (rule of_char_eq_iff [where ?'a = nat, THEN iffD1], simp)+

lemmas bencode_eval = sample_value_def unsorted_value_def valid_def max_depth_def
  encode_string_def show_int_def show_nat.simps digit_char_numerals less_char_def

text \<open>
  \<^bold>\<open>C5.\<close> For every valid bencode value \<open>x\<close> (keys of every dictionary in
  strictly ascending order, nesting of at most 256), decoding the encoding of \<open>x\<close>
  gives \<open>x\<close> back; the streaming decoder returns \<open>x\<close> together with whatever
  follows the encoding, and the top-level decoder rejects the input when anything
  follows. The encoding is canonical: it does not depend on the order in which a
  dictionary lists its entries (a value and its canonical form encode alike), and what
  the decoder reads back from the encoding of any value without duplicate keys is the
  canonical form, with the keys of every dictionary sorted.
\<close>

theorem bencode_roundtrip:
  "(valid x \<longrightarrow>
      decode (encode x) = Some x
      \<and> decode_prefix (encode x @ rest) = Some (x, rest)
      \<and> (rest \<noteq> [] \<longrightarrow> decode (encode x @ rest) = None))
   \<and> encode (canonical y) = encode y
   \<and> (distinct_keys y \<and> nesting y \<le> max_depth \<longrightarrow>
        valid (canonical y) \<and> decode (encode y) = Some (canonical y))
   \<and> (valid y \<longrightarrow> canonical y = y)"
proof -
  have rt: "decode (encode v) = Some v" if "valid v" for v
    using decode_prefix_encode [OF that, of "[]"] by (simp add: decode_def)
  have a: "valid x \<longrightarrow>
      decode (encode x) = Some x
      \<and> decode_prefix (encode x @ rest) = Some (x, rest)
      \<and> (rest \<noteq> [] \<longrightarrow> decode (encode x @ rest) = None)"
    using rt [of x] decode_prefix_encode [of x rest] by (simp add: decode_def)
  have b: "encode (canonical y) = encode y"
    by (rule encode_canonical)
  have c: "distinct_keys y \<and> nesting y \<le> max_depth \<longrightarrow>
        valid (canonical y) \<and> decode (encode y) = Some (canonical y)"
  proof
    assume h: "distinct_keys y \<and> nesting y \<le> max_depth"
    then have v: "valid (canonical y)"
      by (simp add: valid_def keys_ascending_canonical nesting_canonical)
    from rt [OF v] show "valid (canonical y) \<and> decode (encode y) = Some (canonical y)"
      using v by (simp add: encode_canonical)
  qed
  have d: "valid y \<longrightarrow> canonical y = y"
  proof
    assume v: "valid y"
    then have "distinct_keys y \<and> nesting y \<le> max_depth"
      by (simp add: valid_def keys_ascending_distinct)
    with c have "decode (encode y) = Some (canonical y)"
      by blast
    with rt [OF v] show "canonical y = y"
      by simp
  qed
  from a b c d show ?thesis by blast
qed


theorem bencode_roundtrip_witness:
  "valid sample_value
   \<and> encode sample_value = ''d1:al2:xyi0ee1:bi-42ee''
   \<and> decode ''d1:al2:xyi0ee1:bi-42ee'' = Some sample_value
   \<and> decode_prefix ''d1:al2:xyi0ee1:bi-42eei7e'' = Some (sample_value, ''i7e'')
   \<and> decode ''d1:al2:xyi0ee1:bi-42eei7e'' = None
   \<and> encode unsorted_value = ''d1:al2:xyi0ee1:bi-42ee''
   \<and> canonical unsorted_value = sample_value"
proof -
  have v: "valid sample_value"
    by (simp add: bencode_eval)
  have e: "encode sample_value = ''d1:al2:xyi0ee1:bi-42ee''"
    by (simp add: bencode_eval less_eq_char_def)
  have cu: "canonical unsorted_value = sample_value"
    by (simp add: bencode_eval less_eq_char_def)
  have ne: "''i7e'' \<noteq> []"
    by simp
  note t = bencode_roundtrip [of sample_value "''i7e''" unsorted_value]
  from t v ne have
    "decode (encode sample_value) = Some sample_value
     \<and> decode_prefix (encode sample_value @ ''i7e'') = Some (sample_value, ''i7e'')
     \<and> decode (encode sample_value @ ''i7e'') = None"
    by blast
  moreover from t have "encode (canonical unsorted_value) = encode unsorted_value"
    by blast
  ultimately show ?thesis
    using v e cu by simp
qed

section \<open>Properties of the XOR distance\<close>

text \<open>
  \<^bold>\<open>C7.\<close> For all 160-bit node ids \<open>a\<close>, \<open>b\<close>, \<open>c\<close>: the distance from
  \<open>a\<close> to itself is 0, the distance is symmetric, and the distance from \<open>a\<close> to
  \<open>c\<close> is at most (in fact equal to) the bitwise XOR of the distances from \<open>a\<close> to
  \<open>b\<close> and from \<open>b\<close> to \<open>c\<close>.
\<close>

theorem xor_distance_metric:
  "xor_distance a a = 0
   \<and> xor_distance a b = xor_distance b a
   \<and> xor_distance a c \<le> xor_distance a b XOR xor_distance b c
   \<and> xor_distance a c = xor_distance a b XOR xor_distance b c"
proof -
  have "(a XOR b) XOR (b XOR c) = a XOR c"
    by (simp add: bit_eq_iff bit_xor_iff) blast
  then show ?thesis
    by (simp add: xor_distance_def xor.commute)
qed

section \<open>Properties of the discovery loop\<close>

lemma discovery_schedule:
  "now (discovery_run env n) = n
   \<and> n \<le> next_announce (discovery_run env n)
   \<and> next_announce (discovery_run env n) < n + 600
   \<and> next_announce (discovery_run env n) mod 600 = 0
   \<and> n \<le> next_search (discovery_run env n)
   \<and> next_search (discovery_run env n) < n + 300
   \<and> next_search (discovery_run env n) mod 300 = 0"
proof (induction n)
  case 0
  show ?case
    by (simp add: discovery_start_def)
next
  case (Suc n)
  let ?s = "discovery_run env n"
  from Suc have a: "next_announce ?s \<le> n \<longleftrightarrow> next_announce ?s = n"
    and b: "next_search ?s \<le> n \<longleftrightarrow> next_search ?s = n"
    by auto
  from Suc show ?case
    by (auto simp: discovery_tick_def Let_def announce_interval_def search_interval_def)
qed

lemma due_iff:
  fixes a n p :: nat
  assumes "n \<le> a" "a < n + p" "a mod p = 0"
  shows "a \<le> n \<longleftrightarrow> n mod p = 0"
proof
  assume "a \<le> n"
  with assms(1) have "a = n"
    by simp
  with assms(3) show "n mod p = 0"
    by simp
next
  assume "n mod p = 0"
  with assms(3) have "p dvd a - n"
    by (simp add: dvd_diff_nat mod_eq_0_iff_dvd)
  moreover have "a - n < p"
    using assms(1,2) by linarith
  ultimately have "a - n = 0"
    using dvd_imp_le [of p "a - n"] by (cases "a - n = 0") auto
  then show "a \<le> n"
    by simp
qed

lemma announce_due_iff: "next_announce (discovery_run env n) \<le> n \<longleftrightarrow> n mod 600 = 0"
  using discovery_schedule [of env n] by (intro due_iff) simp_all

lemma search_due_iff: "next_search (discovery_run env n) \<le> n \<longleftrightarrow> n mod 300 = 0"
  using discovery_schedule [of env n] by (intro due_iff) simp_all

lemma actions_step:
  "actions (discovery_run env (Suc n)) =
     actions (discovery_run env n)
     @ (if n mod 600 = 0 then [(n, Announce_peer (discovery_hash env) (announce_port env))] else [])
     @ (if n mod 300 = 0
        then (n, Get_peers (discovery_hash env)) # map (\<lambda>e. (n, Enqueue_connect e)) (connect_candidates env n)
        else [])"
  using discovery_schedule [of env n] announce_due_iff [of env n] search_due_iff [of env n]
  by (simp add: discovery_tick_def Let_def)

lemma actions_announce:
  "(t, Announce_peer h p) \<in> set (actions (discovery_run env n))
   \<longleftrightarrow> t < n \<and> t mod 600 = 0 \<and> h = discovery_hash env \<and> p = announce_port env"
proof (induction n)
  case 0
  show ?case by (simp add: discovery_start_def)
next
  case (Suc n)
  show ?case
    unfolding actions_step using Suc by (auto simp: less_Suc_eq)
qed

lemma actions_search:
  "(t, Get_peers h) \<in> set (actions (discovery_run env n))
   \<longleftrightarrow> t < n \<and> t mod 300 = 0 \<and> h = discovery_hash env"
proof (induction n)
  case 0
  show ?case by (simp add: discovery_start_def)
next
  case (Suc n)
  show ?case
    unfolding actions_step using Suc by (auto simp: less_Suc_eq)
qed

lemma actions_enqueue:
  "(t, Enqueue_connect e) \<in> set (actions (discovery_run env n))
   \<longleftrightarrow> t < n \<and> t mod 300 = 0 \<and> e \<in> set (connect_candidates env t)"
proof (induction n)
  case 0
  show ?case by (simp add: discovery_start_def)
next
  case (Suc n)
  show ?case
    unfolding actions_step using Suc by (auto simp: less_Suc_eq)
qed

lemma candidates_iff:
  "e \<in> set (connect_candidates env t) \<longleftrightarrow>
     e \<in> set (get_peers_result env t) \<and> e \<notin> set (live_peers_at env t)
     \<and> \<not> blacklisted (blacklist_at env t) t e"
  by (auto simp: connect_candidates_def)

text \<open>
  \<^bold>\<open>C6.\<close> While the discovery loop has been running for \<open>n\<close> seconds, it has
  announced the client on the discovery hash exactly at the times below \<open>n\<close> that are
  multiples of 10 minutes, it has searched on that hash exactly at the times that are
  multiples of 5 minutes, and with each search it has enqueued an outbound connect for
  exactly those returned endpoints that were neither a live peer nor on the
  connect-blacklist at that time.
\<close>

theorem discovery_loop_schedule:
  "((t, Announce_peer h p) \<in> set (actions (discovery_run env n))
      \<longleftrightarrow> t < n \<and> t mod (10 * 60) = 0 \<and> h = discovery_hash env \<and> p = announce_port env)
   \<and> ((t, Get_peers h) \<in> set (actions (discovery_run env n))
      \<longleftrightarrow> t < n \<and> t mod (5 * 60) = 0 \<and> h = discovery_hash env)
   \<and> ((t, Enqueue_connect e) \<in> set (actions (discovery_run env n))
      \<longleftrightarrow> t < n \<and> t mod (5 * 60) = 0 \<and> e \<in> set (get_peers_result env t)
          \<and> e \<notin> set (live_peers_at env t) \<and> \<not> blacklisted (blacklist_at env t) t e)"
  by (simp add: actions_announce actions_search actions_enqueue candidates_iff)

theorem discovery_loop_schedule_witness:
  "(600, Announce_peer (discovery_hash sample_discovery) 8080)
      \<in> set (actions (discovery_run sample_discovery 601))
   \<and> (300, Announce_peer (discovery_hash sample_discovery) 8080)
      \<notin> set (actions (discovery_run sample_discovery 601))
   \<and> (300, Get_peers (discovery_hash sample_discovery))
      \<in> set (actions (discovery_run sample_discovery 601))
   \<and> (300, Enqueue_connect (''192.0.2.3'', 8080))
      \<in> set (actions (discovery_run sample_discovery 601))
   \<and> (300, Enqueue_connect (''192.0.2.2'', 8080))
      \<notin> set (actions (discovery_run sample_discovery 601))
   \<and> (300, Enqueue_connect (''192.0.2.1'', 8080))
      \<notin> set (actions (discovery_run sample_discovery 601))"
proof -
  have a: "(600, Announce_peer (discovery_hash sample_discovery) 8080)
      \<in> set (actions (discovery_run sample_discovery 601))"
    using discovery_loop_schedule [of 600 "discovery_hash sample_discovery" 8080 sample_discovery 601]
    by (simp add: sample_discovery_def)
  have b: "(300, Announce_peer (discovery_hash sample_discovery) 8080)
      \<notin> set (actions (discovery_run sample_discovery 601))"
    using discovery_loop_schedule [of 300 "discovery_hash sample_discovery" 8080 sample_discovery 601]
    by simp
  have c: "(300, Get_peers (discovery_hash sample_discovery))
      \<in> set (actions (discovery_run sample_discovery 601))"
    using discovery_loop_schedule [of 300 "discovery_hash sample_discovery" 8080 sample_discovery 601]
    by simp
  have d: "(300, Enqueue_connect (''192.0.2.3'', 8080))
      \<in> set (actions (discovery_run sample_discovery 601))"
    using discovery_loop_schedule [of 300 _ _ sample_discovery 601 "(''192.0.2.3'', 8080)"]
    by (simp add: sample_discovery_def blacklisted_def blacklist_duration_def)
  have e: "(300, Enqueue_connect (''192.0.2.2'', 8080))
      \<notin> set (actions (discovery_run sample_discovery 601))"
    using discovery_loop_schedule [of 300 _ _ sample_discovery 601 "(''192.0.2.2'', 8080)"]
    by (simp add: sample_discovery_def blacklisted_def blacklist_duration_def)
  have f: "(300, Enqueue_connect (''192.0.2.1'', 8080))
      \<notin> set (actions (discovery_run sample_discovery 601))"
    using discovery_loop_schedule [of 300 _ _ sample_discovery 601 "(''192.0.2.1'', 8080)"]
    by (simp add: sample_discovery_def blacklisted_def blacklist_duration_def)
  from a b c d e f show ?thesis by simp
qed

end
